theory Spec2Isabelle
  imports Complex_Main "HOL-Library.Product_Lexorder" "HOL-Library.Multiset"
begin

section \<open>Values and errors\<close>

text \<open>
  Python integers are \<open>int\<close>. A Python \<open>float\<close> is a binary double: a sign, 53 significant
  bits and a power of two. The model holds a float as the rational number it denotes, and
  every float operation of the source (true division, subtraction, addition,
  multiplication, \<open>round(x, 1)\<close>) as the exact operation followed by rounding to the nearest
  double, a tie going to the even mantissa. The exponent is not bounded: the model agrees
  with the code as long as no result overflows (leaves the range of doubles, about
  1.8e308) or underflows (is smaller than about 2.2e-308 without being 0); infinities and
  NaN are not modelled. Every \<open>raise\<close> of the source is a value \<open>Inl e\<close> of a sum type.
\<close>

datatype py_error = ZeroDivisionError | ApiError | UploadError

text \<open>Python's \<open>round(x)\<close>: to the nearest integer, a tie goes to the even neighbour.\<close>

definition py_round :: "rat \<Rightarrow> int" where
  "py_round x =
     (let f = \<lfloor>x\<rfloor>; r = x - of_int f
      in if r < 1 / 2 then f
         else if 1 / 2 < r then f + 1
         else if even f then f else f + 1)"

text \<open>
  The unit in the last place of a positive number \<open>x\<close>: the power of two \<open>u\<close> with
  \<open>2^52 * u \<le> x < 2^53 * u\<close> (4503599627370496 is \<open>2^52\<close>). It is found by doubling \<open>x\<close>
  while it is below \<open>2^52\<close>, or by halving it while it is \<open>2^53\<close> or more.
\<close>

function ulp_small :: "rat \<Rightarrow> rat" where
  "ulp_small x = (if 0 < x \<and> x < 4503599627370496 then ulp_small (2 * x) / 2 else 1)"
  by pat_completeness auto

termination ulp_small
proof (relation "measure (\<lambda>x. nat \<lceil>4503599627370496 / x\<rceil>)")
  show "wf (measure (\<lambda>x. nat \<lceil>4503599627370496 / x\<rceil>))" by simp
next
  fix x :: rat
  assume a: "0 < x \<and> x < 4503599627370496"
  define t where "t = 4503599627370496 / x"
  have t: "1 < t" using a by (simp add: t_def)
  then have "2 \<le> \<lceil>t\<rceil>" by linarith
  then have "(2::rat) \<le> of_int \<lceil>t\<rceil>" by linarith
  moreover have "t \<le> of_int \<lceil>t\<rceil>" by simp
  ultimately have "t / 2 \<le> of_int \<lceil>t\<rceil> - 1" by linarith
  then have "t / 2 \<le> of_int (\<lceil>t\<rceil> - 1)" by simp
  then have "\<lceil>t / 2\<rceil> \<le> \<lceil>t\<rceil> - 1" by (rule ceiling_le)
  then have "\<lceil>4503599627370496 / (2 * x)\<rceil> < \<lceil>4503599627370496 / x\<rceil>"
    by (simp add: t_def field_simps)
  moreover have "0 < \<lceil>4503599627370496 / x\<rceil>" using a by simp
  ultimately show "(2 * x, x) \<in> measure (\<lambda>x. nat \<lceil>4503599627370496 / x\<rceil>)" by simp
qed

function ulp_large :: "rat \<Rightarrow> rat" where
  "ulp_large x = (if 9007199254740992 \<le> x then 2 * ulp_large (x / 2) else 1)"
  by pat_completeness auto

termination ulp_large
proof (relation "measure (\<lambda>x. nat \<lfloor>x\<rfloor>)")
  show "wf (measure (\<lambda>x::rat. nat \<lfloor>x\<rfloor>))" by simp
next
  fix x :: rat
  assume a: "9007199254740992 \<le> x"
  then have "x / 2 \<le> x - 1" by simp
  then have "\<lfloor>x / 2\<rfloor> < \<lfloor>x\<rfloor>" by linarith
  moreover have "0 < \<lfloor>x\<rfloor>" using a by linarith
  ultimately show "(x / 2, x) \<in> measure (\<lambda>x. nat \<lfloor>x\<rfloor>)" by simp
qed

declare ulp_small.simps [simp del] ulp_large.simps [simp del]

definition ulp :: "rat \<Rightarrow> rat" where
  "ulp x = (if x < 4503599627370496 then ulp_small x else ulp_large x)"

text \<open>
  The double nearest to a rational: the multiple of the unit in the last place nearest to
  it, a tie going to the even multiple; 0 for 0.
\<close>

definition round_pos :: "rat \<Rightarrow> rat" where
  "round_pos x = of_int (py_round (x / ulp x)) * ulp x"

definition round_double :: "rat \<Rightarrow> rat" where
  "round_double x = (if x < 0 then - round_pos (- x) else round_pos x)"

text \<open>Python's \<open>a / b\<close>: raises on a zero divisor, otherwise the quotient as a double.\<close>

definition py_truediv :: "rat \<Rightarrow> rat \<Rightarrow> py_error + rat" where
  "py_truediv a b = (if b = 0 then Inl ZeroDivisionError else Inr (round_double (a / b)))"

text \<open>
  Python's \<open>round(x, 1)\<close> on a float: the decimal with one digit after the point nearest
  to the number that the double denotes (a tie, which needs a double that lies exactly
  halfway, goes to the even digit), and then the double nearest to that decimal.
\<close>

definition round1 :: "rat \<Rightarrow> rat" where
  "round1 x = round_double (of_int (py_round (x * 10)) / 10)"

section \<open>Data model\<close>

text \<open>\<open>class ChargeType(Enum)\<close>, with \<open>charge_type.value.lower()\<close>.\<close>

datatype ChargeType = DC | AC | UNKNOWN

fun value_lower :: "ChargeType \<Rightarrow> string" where
  "value_lower DC = ''dc''"
| "value_lower AC = ''ac''"
| "value_lower UNKNOWN = ''unknown''"

text \<open>
  A calendar date is the triple (year, month, day); Python compares dates as these triples,
  lexicographically. \<open>strftime("%Y%m")\<close> renders the year and the two-digit month: the
  month token is modelled as the pair it renders.
\<close>

type_synonym date = "int \<times> int \<times> int"

type_synonym month_token = "int \<times> int"

definition strftime_Ym :: "date \<Rightarrow> month_token" where
  "strftime_Ym d = (fst d, fst (snd d))"

definition is_leap :: "int \<Rightarrow> bool" where
  "is_leap y = (if y mod 400 = 0 then True else if y mod 100 = 0 then False else y mod 4 = 0)"

definition days_in_month :: "int \<Rightarrow> int \<Rightarrow> int" where
  "days_in_month y m =
     (if m = 2 then (if is_leap y then 29 else 28)
      else if m = 4 \<or> m = 6 \<or> m = 9 \<or> m = 11 then 30 else 31)"

text \<open>The dates that \<open>datetime.date\<close> can hold.\<close>

definition valid_date :: "date \<Rightarrow> bool" where
  "valid_date d =
     (case d of (y, m, dd) \<Rightarrow>
        1 \<le> y \<and> 1 \<le> m \<and> m \<le> 12 \<and> 1 \<le> dd \<and> dd \<le> days_in_month y m)"

text \<open>\<open>today - timedelta(days=1)\<close>.\<close>

definition yesterday :: "date \<Rightarrow> date" where
  "yesterday d =
     (case d of (y, m, dd) \<Rightarrow>
        if 1 < dd then (y, m, dd - 1)
        else if 1 < m then (y, m - 1, days_in_month y (m - 1))
        else (y - 1, 12, 31))"

text \<open>
  Modelled from the spec: the classes of the telematics library (trips, daily statistics,
  the vehicle) are declared outside the sources; their attributes are the ones the client
  reads, with the units of the specification (km, Wh, minutes, percent).

  One trip of \<open>vehicle.day_trip_info.trip_list\<close>.
\<close>

record trip_info =
  trip_distance :: rat
  avg_speed :: rat
  max_speed :: rat
  drive_time :: int
  idle_time :: int

text \<open>
  Modelled from the spec: one entry of \<open>vehicle.daily_stats\<close>, one calendar day of vehicle
  activity. Its \<open>date\<close> is a calendar date: the client sorts by it and reads it through
  \<open>.date()\<close> and \<open>strftime\<close>. The \<open>odometer\<close> attribute is not supplied by the telematics
  library: \<open>process_and_upload_daily_stats\<close> sets it on every entry before any entry is read.
\<close>

record daily_stat =
  date :: date
  distance :: rat
  total_consumed :: rat
  engine_consumption :: rat
  climate_consumption :: rat
  onboard_electronics_consumption :: rat
  battery_care_consumption :: rat
  regenerated_energy :: rat
  odometer :: rat

text \<open>Modelled from the spec: the attributes of \<open>self.vehicle\<close> that the client reads.\<close>

record vehicle =
  ev_battery_is_charging :: bool
  ev_battery_percentage :: int
  ev_charge_limits_ac :: int
  ev_charge_limits_dc :: int
  ev_estimated_current_charge_duration :: int
  vehicle_odometer :: rat
  daily_stats :: "daily_stat list"
  day_trip_info :: "trip_info list option"

text \<open>The attributes of \<open>VehicleClient\<close> that the estimator and the upload read or write.\<close>

record client =
  charging_power_in_kilowatts :: rat
  charge_type :: ChargeType
  spritmonitor_vehicle_id :: "string option"
  spritmonitor_tank_id :: string
  electricity_price :: rat
  currency_id :: int
  vehicle :: vehicle

text \<open>
  \<open>VehicleClient.__init__\<close>: the two estimator fields start at 0 and \<open>UNKNOWN\<close>; the rest
  comes from the environment variables and, for the vehicle, from the first snapshot.
\<close>

definition client_init :: "string option \<Rightarrow> string \<Rightarrow> rat \<Rightarrow> int \<Rightarrow> vehicle \<Rightarrow> client" where
  "client_init vid tank price cur v =
     \<lparr> charging_power_in_kilowatts = 0, charge_type = UNKNOWN,
       spritmonitor_vehicle_id = vid, spritmonitor_tank_id = tank,
       electricity_price = price, currency_id = cur, vehicle = v \<rparr>"

section \<open>Charging-power estimator\<close>

text \<open>The \<open>if/elif\<close> chain that simulates the DC charging curve.\<close>

definition taper :: "int \<Rightarrow> rat \<Rightarrow> rat" where
  "taper pct p =
     (if 95 < pct then min 5 p
      else if 90 < pct then min 10 p
      else if 80 < pct then min 20 p
      else if 75 < pct then min 35 p
      else if 55 < pct then min 55 p
      else if 40 < pct then min 70 p
      else if 27 < pct then min 77 p
      else p)"

definition estimated_niro_total_kwh_needed :: int where
  "estimated_niro_total_kwh_needed = 70"

text \<open>
  The linear estimate, written twice in the source (against 100 percent, then against the
  DC limit): \<open>percent_remaining = limit - ev_battery_percentage\<close>,
  \<open>kwh_remaining = estimated_niro_total_kwh_needed * percent_remaining / 100\<close>, and
  \<open>kwh_remaining / (ev_estimated_current_charge_duration / 60)\<close>. The product is a product
  of integers; each of the three divisions yields a double, and only the last one can meet
  a zero divisor.
\<close>

definition linear_estimate :: "int \<Rightarrow> vehicle \<Rightarrow> py_error + rat" where
  "linear_estimate limit v =
     (let percent_remaining = limit - ev_battery_percentage v;
          kwh_remaining =
            round_double (of_int (estimated_niro_total_kwh_needed * percent_remaining) / 100)
      in py_truediv kwh_remaining
           (round_double (of_int (ev_estimated_current_charge_duration v) / 60)))"

text \<open>
  \<open>get_estimated_charging_power\<close>: the returned value (or the exception) and the client
  after the call. The local variable \<open>charging_power_in_kilowatts\<close> is \<open>p\<close>; the attribute
  \<open>self.charging_power_in_kilowatts\<close> is the field of the client.
\<close>

definition get_estimated_charging_power :: "client \<Rightarrow> (py_error + rat) \<times> client" where
  "get_estimated_charging_power c =
     (let v = vehicle c in
      if \<not> ev_battery_is_charging v then (Inr 0, c)
      else
        case linear_estimate 100 v of
          Inl e \<Rightarrow> (Inl e, c)
        | Inr p \<Rightarrow>
            if 8 < p \<and> 15 < ev_charge_limits_ac v - ev_battery_percentage v then
              let c1 = c\<lparr>charge_type := DC\<rparr>
              in case linear_estimate (ev_charge_limits_dc v) v of
                   Inl e \<Rightarrow> (Inl e, c1)
                 | Inr q \<Rightarrow>
                     (Inr (round1 (taper (ev_battery_percentage v) p)),
                      c1\<lparr>charging_power_in_kilowatts := q\<rparr>)
            else (Inr (round1 p), c\<lparr>charge_type := AC\<rparr>))"

section \<open>Daily-stats reconciler\<close>

text \<open>
  \<open>sorted(self.vehicle.daily_stats, key=lambda x: x.date, reverse=True)\<close>: Python's sort
  is stable, and with \<open>reverse=True\<close> entries with equal keys keep their original order.
\<close>

definition sorted_daily_stats :: "daily_stat list \<Rightarrow> daily_stat list" where
  "sorted_daily_stats ds = rev (sort_key date (rev ds))"

text \<open>
  The loop \<open>day.odometer = current_odometer; current_odometer -= day.distance\<close>: one float
  subtraction per day.
\<close>

fun assign_odometers :: "rat \<Rightarrow> daily_stat list \<Rightarrow> daily_stat list" where
  "assign_odometers current_odometer [] = []"
| "assign_odometers current_odometer (day # days) =
     day\<lparr>odometer := current_odometer\<rparr>
       # assign_odometers (round_double (current_odometer - distance day)) days"

text \<open>The list comprehension that drops today's entry and the entries already uploaded.\<close>

definition filtered_stats :: "date option \<Rightarrow> date \<Rightarrow> daily_stat list \<Rightarrow> daily_stat list" where
  "filtered_stats latest_date today ds =
     filter (\<lambda>day. (case latest_date of None \<Rightarrow> True | Some l \<Rightarrow> l < date day)
                    \<and> date day < today) ds"

text \<open>
  The first half of \<open>process_and_upload_daily_stats\<close>, up to the list that the upload loop
  walks: empty on each of the two early returns.
\<close>

definition backfill :: "date option \<Rightarrow> date \<Rightarrow> vehicle \<Rightarrow> daily_stat list" where
  "backfill latest_date today v =
     (let sorted_stats = sorted_daily_stats (daily_stats v) in
      if sorted_stats = [] then []
      else
        let with_odometer = assign_odometers (vehicle_odometer v) sorted_stats in
        if (case latest_date of None \<Rightarrow> False | Some l \<Rightarrow> yesterday today \<le> l) then []
        else sort_key date (filtered_stats latest_date today with_odometer))"

section \<open>Record builder\<close>

text \<open>
  A value of a Python dict: text, integer or float. The note is free text in the source;
  here it is the list of its labelled numbers, in the order of the text.
\<close>

datatype note_val = NInt int | NFloat rat

datatype pyval = PStr string | PInt int | PFloat rat | PNote "(string \<times> note_val) list"

text \<open>
  \<open>strftime("%d.%m.%Y")\<close>: day and month as two digits, padded with a zero; the year
  with the digits it has (the C library of a Linux system does not pad a year below 1000;
  a date holds a year from 1 to 9999).
\<close>

definition digit_char :: "int \<Rightarrow> char" where
  "digit_char d =
     (if d = 0 then CHR ''0'' else if d = 1 then CHR ''1'' else if d = 2 then CHR ''2''
      else if d = 3 then CHR ''3'' else if d = 4 then CHR ''4'' else if d = 5 then CHR ''5''
      else if d = 6 then CHR ''6'' else if d = 7 then CHR ''7'' else if d = 8 then CHR ''8''
      else CHR ''9'')"

definition two_digits :: "int \<Rightarrow> string" where
  "two_digits n = [digit_char (n div 10 mod 10), digit_char (n mod 10)]"

definition four_digits :: "int \<Rightarrow> string" where
  "four_digits n = two_digits (n div 100) @ two_digits (n mod 100)"

definition year_digits :: "int \<Rightarrow> string" where
  "year_digits y =
     (if y < 10 then [digit_char (y mod 10)]
      else if y < 100 then two_digits y
      else if y < 1000 then digit_char (y div 100 mod 10) # two_digits (y mod 100)
      else four_digits y)"

definition strftime_dmY :: "date \<Rightarrow> string" where
  "strftime_dmY d =
     (case d of (y, m, dd) \<Rightarrow> two_digits dd @ ''.'' @ two_digits m @ ''.'' @ year_digits y)"

text \<open>The dict \<open>consumption_data\<close>, one field per key.\<close>

record consumption_data =
  cd_date :: string
  cd_odometer :: int
  trip :: rat
  quantity :: rat
  fuelsortid :: int
  quantityunitid :: int
  country :: string
  stationname :: string
  charging_power :: rat
  charging_duration :: int
  charge_info :: string
  percent :: int
  fueling_type :: string
  bc_consumption :: rat
  bc_quantity :: rat
  bc_speed :: rat
  price :: rat
  currencyid :: int
  pricetype :: int
  cd_note :: "(string \<times> note_val) list"

text \<open>\<open>int(x)\<close> on a float: truncation towards zero.\<close>

definition py_int :: "rat \<Rightarrow> int" where
  "py_int x = (if 0 \<le> x then \<lfloor>x\<rfloor> else \<lceil>x\<rceil>)"

text \<open>
  The value of the key \<open>bc_consumption\<close>:
  \<open>round(distance / (total_consumed / 1000), 1) if total_consumed > 0 else 0\<close>.
\<close>

definition bc_consumption_of :: "daily_stat \<Rightarrow> py_error + rat" where
  "bc_consumption_of day_stats =
     (if 0 < total_consumed day_stats then
        (case py_truediv (distance day_stats)
                (round_double (total_consumed day_stats / 1000)) of
           Inl e \<Rightarrow> Inl e
         | Inr x \<Rightarrow> Inr (round1 x))
      else Inr 0)"

text \<open>The six energy lines of the note; every \<open>/ 1000\<close> and the subtraction yield a double.\<close>

definition energy_note :: "daily_stat \<Rightarrow> (string \<times> note_val) list" where
  "energy_note day_stats =
     [(''Engine'', NFloat (round1 (round_double (engine_consumption day_stats / 1000)))),
      (''Climate'', NFloat (round1 (round_double (climate_consumption day_stats / 1000)))),
      (''Electronics'',
         NFloat (round1 (round_double (onboard_electronics_consumption day_stats / 1000)))),
      (''Battery Care'',
         NFloat (round1 (round_double (battery_care_consumption day_stats / 1000)))),
      (''Regenerated'', NFloat (round1 (round_double (regenerated_energy day_stats / 1000)))),
      (''Net Consumption'',
         NFloat (round1 (round_double
           (round_double (total_consumed day_stats - regenerated_energy day_stats) / 1000))))]"

text \<open>
  Python's \<open>sum\<close> over floats: from 0, one float addition per item, from the left (the
  interpreter versions from 3.12 on also carry a correction term for the rounding errors
  of the additions, which is not modelled).
\<close>

definition py_sum :: "rat list \<Rightarrow> rat" where
  "py_sum xs = foldl (\<lambda>acc x. round_double (acc + x)) 0 xs"

text \<open>
  The trip block: the value of \<open>bc_speed\<close> and the lines added to the note. Without a trip
  list, with an empty one, or with no valid trip, \<open>bc_speed\<close> stays 0 and nothing is added.
  The drive and idle times are whole minutes. The note prints the average with \<open>:.1f\<close>,
  that is, the decimal that \<open>round(avg_speed, 1)\<close> is nearest to.
\<close>

definition trip_details ::
  "trip_info list option \<Rightarrow> py_error + rat \<times> (string \<times> note_val) list" where
  "trip_details info =
     (case info of
        None \<Rightarrow> Inr (0, [])
      | Some trips \<Rightarrow>
          if trips = [] then Inr (0, [])
          else
            let total_drive_time = sum_list (map drive_time trips);
                total_idle_time = sum_list (map idle_time trips);
                valid_trips = filter (\<lambda>t. 0 < trip_distance t \<and> 0 < max_speed t) trips
            in (case valid_trips of
                 [] \<Rightarrow> Inr (0, [])
               | t # ts \<Rightarrow>
                   (case py_truediv
                           (py_sum (map (\<lambda>t. round_double (avg_speed t * trip_distance t))
                                      valid_trips))
                           (py_sum (map trip_distance valid_trips)) of
                      Inl e \<Rightarrow> Inl e
                    | Inr avg \<Rightarrow>
                        Inr (round1 avg,
                             [(''Drive time h'', NInt (total_drive_time div 60)),
                              (''Drive time m'', NInt (total_drive_time mod 60)),
                              (''Idle time'', NInt total_idle_time),
                              (''Avg speed'', NFloat (round1 avg)),
                              (''Max speed'', NFloat (fold max (map max_speed ts) (max_speed t))),
                              (''Number of trips'', NInt (int (length trips)))]))))"

text \<open>The body of the \<open>try\<close> block of \<open>send_consumption_to_spritmonitor\<close> before the upload.\<close>

definition build_consumption_data :: "client \<Rightarrow> daily_stat \<Rightarrow> py_error + consumption_data" where
  "build_consumption_data c day_stats =
     (case bc_consumption_of day_stats of
        Inl e \<Rightarrow> Inl e
      | Inr bc \<Rightarrow>
          (case trip_details (day_trip_info (vehicle c)) of
             Inl e \<Rightarrow> Inl e
           | Inr (speed, trip_note) \<Rightarrow>
               Inr \<lparr> cd_date = strftime_dmY (date day_stats),
                     cd_odometer = py_int (odometer day_stats),
                     trip = round1 (distance day_stats),
                     quantity = round1 (round_double (total_consumed day_stats / 1000)),
                     fuelsortid = 5,
                     quantityunitid = 5,
                     country = ''HU'',
                     stationname = ''home'',
                     charging_power = charging_power_in_kilowatts c,
                     charging_duration = 0,
                     charge_info = value_lower (charge_type c) @ '',source_vehicle'',
                     percent = ev_battery_percentage (vehicle c),
                     fueling_type = ''full'',
                     bc_consumption = bc,
                     bc_quantity = round1 (round_double (total_consumed day_stats / 1000)),
                     bc_speed = speed,
                     price = electricity_price c,
                     currencyid = currency_id c,
                     pricetype = 1,
                     cd_note = energy_note day_stats @ trip_note \<rparr>))"

section \<open>Tracking-service client\<close>

text \<open>
  \<open>SpritMonitorClient.upload_consumption_data\<close>: the dict \<open>request_data\<close> in insertion
  order. The keys \<open>location\<close> and \<open>position\<close> are absent from the record built above, so
  \<open>data.get\<close> yields the empty string for them. Every value goes through \<open>str\<close> when the
  query string is written, so the two \<open>str(...)\<close> of the source are not repeated here.
\<close>

definition request_data :: "consumption_data \<Rightarrow> (string \<times> pyval) list" where
  "request_data data =
     [(''date'', PStr (cd_date data)),
      (''odometer'', PInt (cd_odometer data)),
      (''trip'', PFloat (trip data)),
      (''quantity'', PFloat (quantity data)),
      (''type'', PStr (fueling_type data)),
      (''price'', PFloat (price data)),
      (''currencyid'', PInt (currencyid data)),
      (''pricetype'', PInt (pricetype data)),
      (''fuelsortid'', PStr ''19''),
      (''quantityunitid'', PInt (quantityunitid data)),
      (''charge_info'', PStr (charge_info data @ '',source_vehicle'')),
      (''percent'', PInt (percent data)),
      (''bc_consumption'', PFloat (bc_consumption data)),
      (''bc_quantity'', PFloat (bc_quantity data)),
      (''bc_speed'', PFloat (bc_speed data)),
      (''note'', PNote (cd_note data)),
      (''location'', PStr []),
      (''position'', PStr [])]
     @ (if charging_power data \<noteq> 0 \<and> 0 < charging_power data
        then [(''charging_power'', PFloat (charging_power data))] else [])
     @ (if charging_duration data \<noteq> 0 \<and> 0 < charging_duration data
        then [(''charging_duration'', PInt (charging_duration data))] else [])"

text \<open>
  The pairs that reach the query string: those with \<open>v != ""\<close>. The empty text is the
  empty string, and for the note the empty list of lines.
\<close>

definition query_items :: "(string \<times> pyval) list \<Rightarrow> (string \<times> pyval) list" where
  "query_items rd = filter (\<lambda>kv. snd kv \<noteq> PStr [] \<and> snd kv \<noteq> PNote []) rd"

section \<open>Upload sequencer\<close>

text \<open>
  The external collaborators. Each call either succeeds or raises; what it does is decided
  outside the program, so each is a function of the call's arguments:
  \<^item> \<open>vm.update_month_trip_info\<close> and \<open>vm.update_day_trip_info\<close> of the telematics library
    (the second one stores the day's trip list in \<open>vehicle.day_trip_info\<close>);
  \<^item> \<open>_send_request\<close> of the tracking-service client, for the fueling request of a vehicle
    and a tank;
  \<^item> \<open>get_latest_fuelings\<close>, with the date and the odometer of each entry already parsed (an
    entry that does not parse raises inside the same \<open>try\<close> block, and is an \<open>Inl\<close> here).
\<close>

record env =
  update_month_trip_info :: "month_token \<Rightarrow> py_error option"
  update_day_trip_info :: "date \<Rightarrow> py_error + trip_info list option"
  send_request :: "string \<Rightarrow> string \<Rightarrow> (string \<times> pyval) list \<Rightarrow> py_error option"
  get_latest_fuelings :: "py_error + (date \<times> rat) list"

text \<open>The calls made to the collaborators, in order.\<close>

datatype event =
  MonthHydration month_token
| DayHydration date
| Upload string string "(string \<times> pyval) list"

text \<open>
  How a pass ends: the loop ran to its end, the function returned from the \<open>except\<close> branch
  of the day hydration, or an exception left \<open>send_consumption_to_spritmonitor\<close> and the loop.
\<close>

datatype outcome = Completed | Abandoned py_error | Raised py_error

text \<open>\<open>update_trip_info_for_month\<close>: the exception is caught and turned into \<open>False\<close>.\<close>

definition update_trip_info_for_month :: "env \<Rightarrow> month_token \<Rightarrow> bool" where
  "update_trip_info_for_month e month_str =
     (case update_month_trip_info e month_str of None \<Rightarrow> True | Some ex \<Rightarrow> False)"

text \<open>
  \<open>send_consumption_to_spritmonitor\<close>: nothing happens without a vehicle id (\<open>None\<close> or the
  empty string); otherwise the record is built and sent, and every exception is raised
  again after it is logged.
\<close>

definition send_consumption_to_spritmonitor ::
  "env \<Rightarrow> client \<Rightarrow> daily_stat \<Rightarrow> (py_error + unit) \<times> event list" where
  "send_consumption_to_spritmonitor e c day_stats =
     (case spritmonitor_vehicle_id c of
        None \<Rightarrow> (Inr (), [])
      | Some vid \<Rightarrow>
          if vid = [] then (Inr (), [])
          else
            (case build_consumption_data c day_stats of
               Inl ex \<Rightarrow> (Inl ex, [])
             | Inr data \<Rightarrow>
                 let q = query_items (request_data data);
                     ev = [Upload vid (spritmonitor_tank_id c) q]
                 in (case send_request e vid (spritmonitor_tank_id c) q of
                       Some ex \<Rightarrow> (Inl ex, ev)
                     | None \<Rightarrow> (Inr (), ev))))"

text \<open>
  The loop \<open>for day in filtered_stats\<close>. \<open>handle_api_exception\<close> only logs, so the \<open>except\<close>
  branch of the day hydration is the \<open>return\<close> alone. The result of
  \<open>update_trip_info_for_month\<close> is not looked at.
\<close>

fun upload_loop ::
  "env \<Rightarrow> client \<Rightarrow> month_token option \<Rightarrow> daily_stat list \<Rightarrow> outcome \<times> event list" where
  "upload_loop e c current_month [] = (Completed, [])"
| "upload_loop e c current_month (day # days) =
     (let month = strftime_Ym (date day);
          new_month = (Some month \<noteq> current_month);
          ev_month = (if new_month then [MonthHydration month] else []);
          month_updated = (if new_month then update_trip_info_for_month e month else True);
          current_month' = (if new_month then Some month else current_month)
      in case update_day_trip_info e (date day) of
           Inl ex \<Rightarrow> (Abandoned ex, ev_month @ [DayHydration (date day)])
         | Inr info \<Rightarrow>
             let c' = c\<lparr>vehicle := (vehicle c)\<lparr>day_trip_info := info\<rparr>\<rparr>
             in (case send_consumption_to_spritmonitor e c' day of
                   (Inl ex, ev_send) \<Rightarrow>
                     (Raised ex, ev_month @ [DayHydration (date day)] @ ev_send)
                 | (Inr u, ev_send) \<Rightarrow>
                     (case upload_loop e c' current_month' days of
                        (out, evs) \<Rightarrow>
                          (out, ev_month @ [DayHydration (date day)] @ ev_send @ evs))))"

declare upload_loop.simps [simp del]

text \<open>
  \<open>process_and_upload_daily_stats\<close>: the checkpoint is the date of the first entry returned
  by the tracking service, or nothing when the lookup fails or returns no entry.
\<close>

definition latest_date_of :: "env \<Rightarrow> date option" where
  "latest_date_of e =
     (case get_latest_fuelings e of
        Inl ex \<Rightarrow> None
      | Inr latest_entries \<Rightarrow>
          (case latest_entries of [] \<Rightarrow> None | latest_entry # rest \<Rightarrow> Some (fst latest_entry)))"

definition process_and_upload_daily_stats :: "env \<Rightarrow> client \<Rightarrow> date \<Rightarrow> outcome \<times> event list" where
  "process_and_upload_daily_stats e c today =
     upload_loop e c None (backfill (latest_date_of e) today (vehicle c))"

section \<open>Notions used by the statements\<close>

text \<open>
  The DC power as the specification words it, in exact arithmetic: the linear estimate
  against the DC limit, clamped by the taper ceiling of the current percentage, rounded to
  one decimal.
\<close>

definition spec_dc_power :: "vehicle \<Rightarrow> rat" where
  "spec_dc_power v =
     of_int (py_round (10 * taper (ev_battery_percentage v)
       (of_int estimated_niro_total_kwh_needed
          * of_int (ev_charge_limits_dc v - ev_battery_percentage v) / 100
        / (of_int (ev_estimated_current_charge_duration v) / 60)))) / 10"

text \<open>A daily statistic as the telematics library supplies it, before an odometer is set.\<close>

definition without_odometer :: "daily_stat \<Rightarrow> daily_stat" where
  "without_odometer d = d\<lparr>odometer := 0\<rparr>"

text \<open>
  The distances of the days strictly more recent than a date, the most recent day first,
  and the result of subtracting them from a number one at a time, every difference rounded
  to a double.
\<close>

definition more_recent :: "date \<Rightarrow> daily_stat list \<Rightarrow> rat list" where
  "more_recent t ds = map distance (filter (\<lambda>e. t < date e) (sorted_daily_stats ds))"

definition subtract_each :: "rat \<Rightarrow> rat list \<Rightarrow> rat" where
  "subtract_each c xs = foldl (\<lambda>acc x. round_double (acc - x)) c xs"

text \<open>No subtraction of such a run rounds: every difference is a double as it stands.\<close>

fun exact_run :: "rat \<Rightarrow> rat list \<Rightarrow> bool" where
  "exact_run c [] = True"
| "exact_run c (x # xs) = (round_double (c - x) = c - x \<and> exact_run (c - x) xs)"

text \<open>The backfill window of a checkpoint (if any) and of today.\<close>

definition in_window :: "date option \<Rightarrow> date \<Rightarrow> daily_stat \<Rightarrow> bool" where
  "in_window checkpoint today d =
     ((case checkpoint of None \<Rightarrow> True | Some l \<Rightarrow> l < date d) \<and> date d < today)"

text \<open>The month-hydration calls and the day-hydration calls of a trace, in order.\<close>

fun month_calls :: "event list \<Rightarrow> month_token list" where
  "month_calls [] = []"
| "month_calls (MonthHydration m # evs) = m # month_calls evs"
| "month_calls (ev # evs) = month_calls evs"

fun day_calls :: "event list \<Rightarrow> date list" where
  "day_calls [] = []"
| "day_calls (DayHydration d # evs) = d # day_calls evs"
| "day_calls (ev # evs) = day_calls evs"

text \<open>
  The month token in force after a trace, and the check that every day-hydration call comes
  while the token of its own month is in force.
\<close>

fun last_month :: "month_token option \<Rightarrow> event list \<Rightarrow> month_token option" where
  "last_month cur [] = cur"
| "last_month cur (MonthHydration m # evs) = last_month (Some m) evs"
| "last_month cur (ev # evs) = last_month cur evs"

fun hydrated :: "month_token option \<Rightarrow> event list \<Rightarrow> bool" where
  "hydrated cur [] = True"
| "hydrated cur (MonthHydration m # evs) = hydrated (Some m) evs"
| "hydrated cur (DayHydration d # evs) = (cur = Some (strftime_Ym d) \<and> hydrated cur evs)"
| "hydrated cur (ev # evs) = hydrated cur evs"

text \<open>The values transmitted under a key by the upload requests of a trace, in order.\<close>

fun event_values :: "string \<Rightarrow> event \<Rightarrow> pyval list" where
  "event_values k (Upload vid tank q) = map snd (filter (\<lambda>kv. fst kv = k) q)"
| "event_values k ev = []"

definition uploaded_values :: "string \<Rightarrow> event list \<Rightarrow> pyval list" where
  "uploaded_values k evs = concat (map (event_values k) evs)"

section \<open>Concrete inputs\<close>

text \<open>
  Four days around a month boundary, given out of order; the vehicle's odometer reads 1000
  and today is 2 February 2024.
\<close>

definition stat_on :: "date \<Rightarrow> rat \<Rightarrow> rat \<Rightarrow> daily_stat" where
  "stat_on d km wh =
     \<lparr> date = d, distance = km, total_consumed = wh, engine_consumption = wh,
       climate_consumption = 0, onboard_electronics_consumption = 0,
       battery_care_consumption = 0, regenerated_energy = 0, odometer = 0 \<rparr>"

definition example_stats :: "daily_stat list" where
  "example_stats =
     [stat_on (2024, 2, 1) 5 1000, stat_on (2024, 1, 30) 10 2000,
      stat_on (2024, 2, 2) 7 0, stat_on (2024, 1, 31) 20 4000]"

definition example_today :: date where
  "example_today = (2024, 2, 2)"

definition vehicle_at :: "bool \<Rightarrow> int \<Rightarrow> int \<Rightarrow> int \<Rightarrow> int \<Rightarrow> vehicle" where
  "vehicle_at charging pct ac dc minutes =
     \<lparr> ev_battery_is_charging = charging, ev_battery_percentage = pct,
       ev_charge_limits_ac = ac, ev_charge_limits_dc = dc,
       ev_estimated_current_charge_duration = minutes,
       vehicle_odometer = 1000, daily_stats = example_stats, day_trip_info = None \<rparr>"

text \<open>
  Three days with the distances 62.6, 59.2 and 40 km on a vehicle whose odometer reads
  14231.8: the fractions are the doubles that Python reads from these decimals.
\<close>

definition float_stats :: "daily_stat list" where
  "float_stats =
     [stat_on (2024, 1, 31) (4165829655317709 / 70368744177664) 11000,
      stat_on (2024, 2, 1) (8810166771043533 / 140737488355328) 12000,
      stat_on (2024, 1, 30) 40 8000]"

definition float_vehicle :: vehicle where
  "float_vehicle =
     \<lparr> ev_battery_is_charging = False, ev_battery_percentage = 60,
       ev_charge_limits_ac = 80, ev_charge_limits_dc = 100,
       ev_estimated_current_charge_duration = 0,
       vehicle_odometer = 3912007396045619 / 274877906944, daily_stats = float_stats,
       day_trip_info = None \<rparr>"

definition fresh_client :: "vehicle \<Rightarrow> client" where
  "fresh_client v = client_init (Some ''123'') ''1'' 41 11 v"

text \<open>
  Collaborators: the entries of the tracking service, the dates whose day hydration fails,
  the months whose month hydration fails, and whether the upload request succeeds.
\<close>

definition example_env ::
  "py_error + (date \<times> rat) list \<Rightarrow> date list \<Rightarrow> month_token list \<Rightarrow> bool \<Rightarrow> env" where
  "example_env latest bad_days bad_months upload_ok =
     \<lparr> update_month_trip_info = (\<lambda>m. if m \<in> set bad_months then Some ApiError else None),
       update_day_trip_info = (\<lambda>d. if d \<in> set bad_days then Inl ApiError else Inr None),
       send_request = (\<lambda>vid tank q. if upload_ok then None else Some UploadError),
       get_latest_fuelings = latest \<rparr>"

section \<open>Rounding to a double: properties\<close>

text \<open>
  \<open>ulp\<close> is the power of two it is meant to be, so a positive number lies between \<open>2^52\<close>
  and \<open>2^53\<close> units in its last place.
\<close>

lemma ulp_small_spec:
  "0 < x \<Longrightarrow> x < 4503599627370496 \<Longrightarrow>
   \<exists>k. ulp_small x = 2 powi k \<and> 4503599627370496 * ulp_small x \<le> x
        \<and> x < 9007199254740992 * ulp_small x"
proof (induction x rule: ulp_small.induct)
  case (1 x)
  have u: "ulp_small x = ulp_small (2 * x) / 2"
    using "1.prems" by (simp add: ulp_small.simps [of x])
  show ?case
  proof (cases "2 * x < 4503599627370496")
    case True
    from "1.IH" "1.prems" True obtain k where
      k: "ulp_small (2 * x) = 2 powi k" "4503599627370496 * ulp_small (2 * x) \<le> 2 * x"
         "2 * x < 9007199254740992 * ulp_small (2 * x)"
      by auto
    have "ulp_small x = 2 powi (k - 1)"
      by (simp add: u k(1) power_int_diff)
    moreover have "4503599627370496 * ulp_small x \<le> x" using k(2) by (simp add: u)
    moreover have "x < 9007199254740992 * ulp_small x" using k(3) by (simp add: u)
    ultimately show ?thesis by blast
  next
    case False
    then have "ulp_small (2 * x) = 1" by (simp add: ulp_small.simps [of "2 * x"])
    then have h: "ulp_small x = 1 / 2" by (simp add: u)
    have "ulp_small x = 2 powi (- 1)" by (simp add: h power_int_minus)
    moreover have "4503599627370496 * ulp_small x \<le> x" using False by (simp add: h)
    moreover have "x < 9007199254740992 * ulp_small x" using "1.prems" by (simp add: h)
    ultimately show ?thesis by blast
  qed
qed

lemma ulp_large_spec:
  "4503599627370496 \<le> x \<Longrightarrow>
   \<exists>k. ulp_large x = 2 powi k \<and> 4503599627370496 * ulp_large x \<le> x
        \<and> x < 9007199254740992 * ulp_large x"
proof (induction x rule: ulp_large.induct)
  case (1 x)
  show ?case
  proof (cases "9007199254740992 \<le> x")
    case True
    then have u: "ulp_large x = 2 * ulp_large (x / 2)"
      by (simp add: ulp_large.simps [of x])
    from "1.IH" True obtain k where
      k: "ulp_large (x / 2) = 2 powi k" "4503599627370496 * ulp_large (x / 2) \<le> x / 2"
         "x / 2 < 9007199254740992 * ulp_large (x / 2)"
      by auto
    have "ulp_large x = 2 powi (k + 1)"
      by (simp add: u k(1) power_int_add)
    moreover have "4503599627370496 * ulp_large x \<le> x" using k(2) by (simp add: u)
    moreover have "x < 9007199254740992 * ulp_large x" using k(3) by (simp add: u)
    ultimately show ?thesis by blast
  next
    case False
    then have h: "ulp_large x = 1" by (simp add: ulp_large.simps [of x])
    have "ulp_large x = 2 powi 0" by (simp add: h)
    moreover have "4503599627370496 * ulp_large x \<le> x" using "1.prems" by (simp add: h)
    moreover have "x < 9007199254740992 * ulp_large x" using False by (simp add: h)
    ultimately show ?thesis by blast
  qed
qed

lemma ulp_spec:
  assumes "0 < x"
  shows "\<exists>k. ulp x = 2 powi k \<and> 4503599627370496 * ulp x \<le> x
            \<and> x < 9007199254740992 * ulp x"
proof (cases "x < 4503599627370496")
  case True
  with ulp_small_spec [OF assms] show ?thesis by (simp add: ulp_def)
next
  case False
  then have "4503599627370496 \<le> x" by simp
  from ulp_large_spec [OF this] False show ?thesis by (simp add: ulp_def)
qed

lemma pow2_bounds_le:
  fixes a :: rat
  assumes "4503599627370496 * 2 powi k \<le> a" "a < 9007199254740992 * 2 powi j"
  shows "k \<le> j"
proof (rule ccontr)
  assume "\<not> k \<le> j"
  then have "j + 1 \<le> k" by simp
  then have "(2::rat) powi (j + 1) \<le> 2 powi k" by (intro power_int_increasing) simp_all
  then have "9007199254740992 * (2::rat) powi j \<le> 4503599627370496 * 2 powi k"
    by (simp add: power_int_add)
  with assms show False by linarith
qed

lemma ulp_unique:
  assumes "0 < a" "4503599627370496 * 2 powi k \<le> a" "a < 9007199254740992 * 2 powi k"
  shows "ulp a = 2 powi k"
proof -
  from ulp_spec [OF assms(1)] obtain j where
    j: "ulp a = 2 powi j" "4503599627370496 * 2 powi j \<le> a" "a < 9007199254740992 * 2 powi j"
    by auto
  have "k \<le> j" using assms(2) j(3) by (rule pow2_bounds_le)
  moreover have "j \<le> k" using j(2) assms(3) by (rule pow2_bounds_le)
  ultimately show ?thesis using j(1) by simp
qed

lemma py_round_cases: "py_round t = \<lfloor>t\<rfloor> \<or> py_round t = \<lfloor>t\<rfloor> + 1"
  by (simp add: py_round_def Let_def)

lemma py_round_of_int [simp]: "py_round (of_int n) = n"
  by (simp add: py_round_def Let_def)

lemma py_round_zero [simp]: "py_round 0 = 0"
  using py_round_of_int [of 0] by simp

lemma py_round_numeral [simp]: "py_round (numeral n) = numeral n"
  using py_round_of_int [of "numeral n"] by simp

lemma py_round_bound: "\<bar>of_int (py_round t) - t\<bar> \<le> 1 / 2"
proof -
  have "of_int \<lfloor>t\<rfloor> \<le> t" "t < of_int \<lfloor>t\<rfloor> + 1" by linarith+
  then show ?thesis by (auto simp: py_round_def Let_def abs_le_iff)
qed

lemma py_round_mono:
  assumes "s \<le> t"
  shows "py_round s \<le> py_round t"
proof (cases "\<lfloor>s\<rfloor> < \<lfloor>t\<rfloor>")
  case True
  then show ?thesis using py_round_cases [of s] py_round_cases [of t] by linarith
next
  case False
  then have f: "\<lfloor>s\<rfloor> = \<lfloor>t\<rfloor>" using floor_mono [OF assms] by simp
  then have "s - of_int \<lfloor>s\<rfloor> \<le> t - of_int \<lfloor>t\<rfloor>" using assms by simp
  then show ?thesis using f by (auto simp: py_round_def Let_def)
qed

lemma ulp_pos:
  assumes "0 < x"
  shows "0 < ulp x"
proof -
  from ulp_spec [OF assms] obtain k where "ulp x = 2 powi k" by blast
  then show ?thesis by simp
qed

lemma round_pos_bounds:
  assumes "0 < x"
  shows "4503599627370496 * ulp x \<le> round_pos x" "round_pos x \<le> 9007199254740992 * ulp x"
proof -
  from ulp_spec [OF assms] have b: "4503599627370496 * ulp x \<le> x" "x < 9007199254740992 * ulp x"
    by blast+
  have u: "0 < ulp x" using assms by (rule ulp_pos)
  have "4503599627370496 \<le> x / ulp x" using b(1) u by (simp add: pos_le_divide_eq)
  from py_round_mono [OF this] have lo: "4503599627370496 \<le> py_round (x / ulp x)" by simp
  have "x / ulp x \<le> 9007199254740992" using b(2) u by (simp add: pos_divide_le_eq)
  from py_round_mono [OF this] have hi: "py_round (x / ulp x) \<le> 9007199254740992" by simp
  from lo have "(4503599627370496::rat) \<le> of_int (py_round (x / ulp x))" by linarith
  then show "4503599627370496 * ulp x \<le> round_pos x"
    using u by (simp add: round_pos_def)
  from hi have "of_int (py_round (x / ulp x)) \<le> (9007199254740992::rat)" by linarith
  then show "round_pos x \<le> 9007199254740992 * ulp x"
    using u by (simp add: round_pos_def)
qed

lemma round_pos_pos:
  assumes "0 < x"
  shows "0 < round_pos x"
proof -
  have "0 < 4503599627370496 * ulp x" using ulp_pos [OF assms] by simp
  then show ?thesis using round_pos_bounds(1) [OF assms] by linarith
qed

lemma round_pos_multiple:
  assumes "ulp a = u" "u \<noteq> 0" "a = of_int m * u"
  shows "round_pos a = a"
  using assms by (simp add: round_pos_def)

lemma round_pos_idem:
  assumes "0 < x"
  shows "round_pos (round_pos x) = round_pos x"
proof -
  from ulp_spec [OF assms] obtain k where k: "ulp x = 2 powi k" by blast
  define m where "m = py_round (x / ulp x)"
  have y: "round_pos x = of_int m * 2 powi k" by (simp add: round_pos_def m_def k)
  have pos: "0 < round_pos x" using assms by (rule round_pos_pos)
  have lo: "4503599627370496 * 2 powi k \<le> round_pos x"
    using round_pos_bounds(1) [OF assms] by (simp add: k)
  have hi: "round_pos x \<le> 9007199254740992 * 2 powi k"
    using round_pos_bounds(2) [OF assms] by (simp add: k)
  show ?thesis
  proof (cases "round_pos x < 9007199254740992 * 2 powi k")
    case True
    from ulp_unique [OF pos lo True] have "ulp (round_pos x) = 2 powi k" .
    moreover have "(2::rat) powi k \<noteq> 0" by simp
    ultimately show ?thesis using y by (rule round_pos_multiple)
  next
    case False
    with hi have e: "round_pos x = 9007199254740992 * 2 powi k" by simp
    then have e': "round_pos x = of_int 4503599627370496 * 2 powi (k + 1)"
      by (simp add: power_int_add)
    have "4503599627370496 * 2 powi (k + 1) \<le> round_pos x" using e' by simp
    moreover have "round_pos x < 9007199254740992 * 2 powi (k + 1)"
      using e by (simp add: power_int_add)
    ultimately have "ulp (round_pos x) = 2 powi (k + 1)" using pos by (intro ulp_unique)
    moreover have "(2::rat) powi (k + 1) \<noteq> 0" by simp
    ultimately show ?thesis using e' by (rule round_pos_multiple)
  qed
qed

lemma round_pos_same_ulp_mono:
  assumes "0 < s" "s \<le> t" "ulp s = ulp t"
  shows "round_pos s \<le> round_pos t"
proof -
  have u: "0 < ulp t" using assms(1,2) by (intro ulp_pos) simp
  then have "s / ulp t \<le> t / ulp t" using assms(2) by (simp add: divide_right_mono)
  from py_round_mono [OF this] have "py_round (s / ulp t) \<le> py_round (t / ulp t)" .
  then have "(of_int (py_round (s / ulp t)) :: rat) \<le> of_int (py_round (t / ulp t))" by simp
  then show ?thesis using u by (simp add: round_pos_def assms(3))
qed

lemma round_pos_le_fixed:
  assumes "0 < t" "t \<le> a" "round_pos a = a"
  shows "round_pos t \<le> a"
proof -
  from ulp_spec [OF assms(1)] obtain k where
    k: "ulp t = 2 powi k" "4503599627370496 * ulp t \<le> t" "t < 9007199254740992 * ulp t"
    by blast
  show ?thesis
  proof (cases "a < 9007199254740992 * ulp t")
    case True
    have "0 < a" using assms(1,2) by simp
    moreover have "4503599627370496 * 2 powi k \<le> a" using k(1,2) assms(2) by simp
    moreover have "a < 9007199254740992 * 2 powi k" using True k(1) by simp
    ultimately have "ulp a = ulp t" using k(1) by (simp add: ulp_unique)
    then have "round_pos t \<le> round_pos a"
      using assms(1,2) by (intro round_pos_same_ulp_mono) simp_all
    then show ?thesis using assms(3) by simp
  next
    case False
    then show ?thesis using round_pos_bounds(2) [OF assms(1)] by linarith
  qed
qed

lemma round_pos_ge_fixed:
  assumes "0 < a" "a \<le> t" "round_pos a = a"
  shows "a \<le> round_pos t"
proof -
  have t: "0 < t" using assms(1,2) by simp
  from ulp_spec [OF t] obtain k where
    k: "ulp t = 2 powi k" "4503599627370496 * ulp t \<le> t" "t < 9007199254740992 * ulp t"
    by blast
  show ?thesis
  proof (cases "4503599627370496 * ulp t \<le> a")
    case True
    have "4503599627370496 * 2 powi k \<le> a" using True k(1) by simp
    moreover have "a < 9007199254740992 * 2 powi k" using k(1,3) assms(2) by simp
    ultimately have "ulp a = ulp t" using k(1) assms(1) by (simp add: ulp_unique)
    then have "round_pos a \<le> round_pos t"
      using assms(1,2) by (intro round_pos_same_ulp_mono) simp_all
    then show ?thesis using assms(3) by simp
  next
    case False
    then show ?thesis using round_pos_bounds(1) [OF t] by linarith
  qed
qed

lemma round_pos_zero [simp]: "round_pos 0 = 0"
  by (simp add: round_pos_def)

lemma round_double_zero [simp]: "round_double 0 = 0"
  by (simp add: round_double_def)

lemma round_double_pos: "0 < x \<Longrightarrow> 0 < round_double x"
  by (simp add: round_double_def round_pos_pos)

lemma round_double_idem: "round_double (round_double x) = round_double x"
proof -
  consider "x < 0" | "x = 0" | "0 < x" by linarith
  then show ?thesis
  proof cases
    case 1
    then have "0 < round_pos (- x)" by (intro round_pos_pos) simp
    then show ?thesis using 1 by (simp add: round_double_def round_pos_idem)
  next
    case 2
    then show ?thesis by simp
  next
    case 3
    then have "0 < round_pos x" by (rule round_pos_pos)
    then show ?thesis using 3 by (simp add: round_double_def round_pos_idem)
  qed
qed

lemma round_double_le_fixed:
  assumes "round_double a = a" "t \<le> a"
  shows "round_double t \<le> a"
proof -
  consider "t < 0" "a < 0" | "t < 0" "0 \<le> a" | "t = 0" | "0 < t" by linarith
  then show ?thesis
  proof cases
    case 1
    then have "round_pos (- a) = - a" using assms(1) by (simp add: round_double_def)
    moreover have "0 < - a" "- a \<le> - t" using 1 assms(2) by simp_all
    ultimately have "- a \<le> round_pos (- t)" by (intro round_pos_ge_fixed)
    then show ?thesis using 1 by (simp add: round_double_def)
  next
    case 2
    then have "0 < round_pos (- t)" by (intro round_pos_pos) simp
    then show ?thesis using 2 by (simp add: round_double_def)
  next
    case 3
    then show ?thesis using assms(2) by simp
  next
    case 4
    then have "0 < a" using assms(2) by simp
    then have "round_pos a = a" using assms(1) by (simp add: round_double_def)
    then show ?thesis using 4 assms(2) by (simp add: round_double_def round_pos_le_fixed)
  qed
qed

lemma floor_rat_numeral [simp]: "\<lfloor>numeral a / numeral b :: rat\<rfloor> = numeral a div numeral b"
  by (metis floor_divide_of_int_eq of_int_numeral)

text \<open>The equations that evaluate \<open>round_double\<close> on a number given by its digits.\<close>

lemmas float_eval = round_double_def round_pos_def ulp_def ulp_small.simps ulp_large.simps
  py_round_def Let_def

lemma round_double_rel_err: "\<bar>round_double x - x\<bar> \<le> \<bar>x\<bar> / 9007199254740992"
proof -
  have pos: "\<bar>round_pos y - y\<bar> \<le> y / 9007199254740992" if y: "0 < y" for y
  proof -
    from ulp_spec [OF y] have b: "4503599627370496 * ulp y \<le> y" by blast
    have u: "0 < ulp y" using y by (rule ulp_pos)
    have "\<bar>round_pos y - y\<bar> = \<bar>of_int (py_round (y / ulp y)) - y / ulp y\<bar> * ulp y"
    proof -
      have "round_pos y - y = (of_int (py_round (y / ulp y)) - y / ulp y) * ulp y"
        using u by (simp add: round_pos_def field_simps)
      then show ?thesis using u by (simp add: abs_mult)
    qed
    also have "\<dots> \<le> 1 / 2 * ulp y"
      using py_round_bound [of "y / ulp y"] u by (intro mult_right_mono) simp_all
    also have "\<dots> \<le> y / 9007199254740992" using b by simp
    finally show ?thesis .
  qed
  consider "x < 0" | "x = 0" | "0 < x" by linarith
  then show ?thesis
  proof cases
    case 1
    then have "\<bar>round_pos (- x) - (- x)\<bar> \<le> (- x) / 9007199254740992" by (intro pos) simp
    then show ?thesis using 1 by (simp add: round_double_def abs_if split: if_splits)
  next
    case 2
    then show ?thesis by simp
  next
    case 3
    from pos [OF this] show ?thesis using 3 by (simp add: round_double_def)
  qed
qed

lemma round_double_small_int:
  assumes "\<bar>n\<bar> < 9007199254740992"
  shows "round_double (of_int n) = of_int n"
proof -
  have pos: "round_pos (of_int m) = of_int m" if m: "0 < m" "m < 9007199254740992" for m :: int
  proof -
    have mp: "(0::rat) < of_int m" using m(1) by simp
    from ulp_spec [OF mp] obtain k where
      k: "ulp (of_int m) = 2 powi k" "4503599627370496 * ulp (of_int m) \<le> of_int m"
      by blast
    have "(of_int m :: rat) < 9007199254740992 * 2 powi 0" using m(2) by simp
    with k have "k \<le> 0" by (intro pow2_bounds_le [where a = "of_int m"]) simp_all
    then have "(2::rat) powi k = inverse (2 ^ nat (- k))" by (simp add: power_int_def power_one_over inverse_eq_divide)
    then have e: "(of_int m :: rat) = of_int (m * 2 ^ nat (- k)) * 2 powi k" by simp
    have nz: "(2::rat) powi k \<noteq> 0" by simp
    show ?thesis by (rule round_pos_multiple [OF k(1) nz e])
  qed
  consider "n < 0" | "n = 0" | "0 < n" by linarith
  then show ?thesis
  proof cases
    case 1
    then have "round_pos (of_int (- n)) = of_int (- n)" using assms by (intro pos) simp_all
    then show ?thesis using 1 by (simp add: round_double_def)
  next
    case 2
    then show ?thesis by simp
  next
    case 3
    then have "round_pos (of_int n) = of_int n" using assms by (intro pos) simp_all
    then show ?thesis using 3 by (simp add: round_double_def)
  qed
qed

text \<open>
  Evaluation does not search for the unit in the last place of a whole number below \<open>2^53\<close>.
\<close>

lemma round_double_code [code]:
  "round_double x =
     (if x = of_int \<lfloor>x\<rfloor> \<and> \<bar>x\<bar> < 9007199254740992 then x
      else if x < 0 then - round_pos (- x) else round_pos x)"
proof (cases "x = of_int \<lfloor>x\<rfloor> \<and> \<bar>x\<bar> < 9007199254740992")
  case True
  then have "\<bar>\<lfloor>x\<rfloor>\<bar> < 9007199254740992" by linarith
  from round_double_small_int [OF this] True show ?thesis by simp
next
  case False
  show ?thesis by (simp only: round_double_def False if_False)
qed

section \<open>Charging-power estimator: properties\<close>

text \<open>The equations that evaluate the estimator on the example vehicles.\<close>

lemmas estimator_eval = get_estimated_charging_power_def linear_estimate_def py_truediv_def
  round1_def taper_def fresh_client_def client_init_def vehicle_at_def
  estimated_niro_total_kwh_needed_def

text \<open>
  C2. On the DC branch the value worded by the specification is the estimate recomputed
  against the DC limit, clamped and rounded. At 50 percent, AC limit 80, DC limit 90 and 90
  minutes to go, that value is 18.7; the estimator returns the double 23.3 (the first
  estimate, against 100 percent, clamped and rounded) and stores the double
  18.666666666666668, the recomputed estimate 56/3, neither clamped nor rounded to one
  decimal.
\<close>

theorem estimator_dc_at_failing_input:
  "fst (get_estimated_charging_power (fresh_client (vehicle_at True 50 80 90 90)))
     = Inr (6558366957358285 / 281474976710656)
   \<and> charging_power_in_kilowatts
        (snd (get_estimated_charging_power (fresh_client (vehicle_at True 50 80 90 90))))
       = 5254199565265579 / 281474976710656
   \<and> charge_type
        (snd (get_estimated_charging_power (fresh_client (vehicle_at True 50 80 90 90)))) = DC
   \<and> spec_dc_power (vehicle_at True 50 80 90 90) = 187 / 10
   \<and> round_double (233 / 10) = 6558366957358285 / 281474976710656
   \<and> round_double (56 / 3) = 5254199565265579 / 281474976710656"
  by (simp add: estimator_eval float_eval spec_dc_power_def)

text \<open>
  C6, as stated: a run with the charging flag off returns 0 and the charge type is UNKNOWN.
  It fails on a client whose earlier run classified a session: after an AC run, a run on a
  vehicle that no longer charges leaves the charge type AC.
\<close>

theorem estimator_not_charging_counterexample:
  "\<not> ev_battery_is_charging (vehicle
        ((snd (get_estimated_charging_power (fresh_client (vehicle_at True 50 80 100 600))))
           \<lparr>vehicle := vehicle_at False 60 80 100 0\<rparr>))
   \<and> charge_type (snd (get_estimated_charging_power
        ((snd (get_estimated_charging_power (fresh_client (vehicle_at True 50 80 100 600))))
           \<lparr>vehicle := vehicle_at False 60 80 100 0\<rparr>))) \<noteq> UNKNOWN"
  by (simp add: estimator_eval float_eval)

text \<open>
  C6, amended: a run with the charging flag off returns 0 and leaves the client as it was,
  charge type included; on a client fresh from \<open>__init__\<close> the charge type is therefore
  UNKNOWN.
\<close>

theorem estimator_not_charging:
  assumes "\<not> ev_battery_is_charging (vehicle c)"
  shows "fst (get_estimated_charging_power c) = Inr 0
       \<and> snd (get_estimated_charging_power c) = c
       \<and> charge_type (snd (get_estimated_charging_power
            (client_init vid tank pr cur (vehicle c)))) = UNKNOWN"
  using assms by (simp add: get_estimated_charging_power_def client_init_def)

theorem estimator_not_charging_witness:
  "\<not> ev_battery_is_charging (vehicle (fresh_client (vehicle_at False 60 80 100 0)))
   \<and> fst (get_estimated_charging_power (fresh_client (vehicle_at False 60 80 100 0))) = Inr 0
   \<and> charge_type (snd (get_estimated_charging_power
        (fresh_client (vehicle_at False 60 80 100 0)))) = UNKNOWN"
proof -
  have h: "\<not> ev_battery_is_charging (vehicle (fresh_client (vehicle_at False 60 80 100 0)))"
    by (simp add: fresh_client_def client_init_def vehicle_at_def)
  note t = estimator_not_charging [OF h, of "Some ''123''" "''1''" 41 11]
  have "charge_type (fresh_client (vehicle_at False 60 80 100 0)) = UNKNOWN"
    by (simp add: fresh_client_def client_init_def)
  with t h show ?thesis by simp
qed

text \<open>
  C9. The attribute \<open>charging_power_in_kilowatts\<close> is written on the DC branch only: a run
  with the charging flag off, and every run that does not leave the charge type DC (so
  every run classified AC), keeps the value the attribute had before.
\<close>

theorem estimator_power_frame:
  assumes "\<not> ev_battery_is_charging (vehicle c)
         \<or> charge_type (snd (get_estimated_charging_power c)) \<noteq> DC"
  shows "charging_power_in_kilowatts (snd (get_estimated_charging_power c))
       = charging_power_in_kilowatts c"
  using assms
  by (auto simp: get_estimated_charging_power_def Let_def split: sum.splits if_splits)

text \<open>
  An AC run on a fresh client: the charge type changes from UNKNOWN to AC and 3.5 is
  returned, while the attribute keeps its initial 0.
\<close>

theorem estimator_power_frame_witness:
  "charge_type (snd (get_estimated_charging_power
      (fresh_client (vehicle_at True 50 80 100 600)))) = AC
   \<and> fst (get_estimated_charging_power (fresh_client (vehicle_at True 50 80 100 600)))
       = Inr (7 / 2)
   \<and> charge_type (fresh_client (vehicle_at True 50 80 100 600)) = UNKNOWN
   \<and> charging_power_in_kilowatts (snd (get_estimated_charging_power
        (fresh_client (vehicle_at True 50 80 100 600)))) = 0"
proof -
  have t: "charge_type (snd (get_estimated_charging_power
      (fresh_client (vehicle_at True 50 80 100 600)))) = AC"
    by (simp add: estimator_eval float_eval)
  have r: "fst (get_estimated_charging_power (fresh_client (vehicle_at True 50 80 100 600)))
       = Inr (7 / 2)"
    by (simp add: estimator_eval float_eval)
  have i: "charge_type (fresh_client (vehicle_at True 50 80 100 600)) = UNKNOWN
         \<and> charging_power_in_kilowatts (fresh_client (vehicle_at True 50 80 100 600)) = 0"
    by (simp add: fresh_client_def client_init_def)
  have "charging_power_in_kilowatts (snd (get_estimated_charging_power
          (fresh_client (vehicle_at True 50 80 100 600))))
      = charging_power_in_kilowatts (fresh_client (vehicle_at True 50 80 100 600))"
    by (rule estimator_power_frame) (simp add: t)
  then show ?thesis using t r i by simp
qed

section \<open>Daily-stats reconciler: properties\<close>

lemma map_date_assign [simp]: "map date (assign_odometers c xs) = map date xs"
  by (induction xs arbitrary: c) auto

lemma without_odometer_assign:
  "map without_odometer (assign_odometers c xs) = map without_odometer xs"
  by (induction xs arbitrary: c) (auto simp: without_odometer_def)

lemma length_assign [simp]: "length (assign_odometers c xs) = length xs"
  by (induction xs arbitrary: c) auto

lemma subtract_each_Cons [simp]:
  "subtract_each c (x # xs) = subtract_each (round_double (c - x)) xs"
  by (simp add: subtract_each_def)

lemma subtract_each_Nil [simp]: "subtract_each c [] = c"
  by (simp add: subtract_each_def)

lemma assign_member:
  "d' \<in> set (assign_odometers c xs) \<Longrightarrow>
   \<exists>pre d post. xs = pre @ d # post
      \<and> d' = d\<lparr>odometer := subtract_each c (map distance pre)\<rparr>"
proof (induction xs arbitrary: c)
  case Nil
  then show ?case by simp
next
  case (Cons x xs)
  show ?case
  proof (cases "d' = x\<lparr>odometer := c\<rparr>")
    case True
    then have "x # xs = [] @ x # xs
      \<and> d' = x\<lparr>odometer := subtract_each c (map distance [])\<rparr>"
      by simp
    then show ?thesis by blast
  next
    case False
    with Cons.prems have "d' \<in> set (assign_odometers (round_double (c - distance x)) xs)"
      by simp
    from Cons.IH[OF this] obtain pre d post where
      h: "xs = pre @ d # post"
         "d' = d\<lparr>odometer := subtract_each (round_double (c - distance x)) (map distance pre)\<rparr>"
      by blast
    then have "x # xs = (x # pre) @ d # post
      \<and> d' = d\<lparr>odometer := subtract_each c (map distance (x # pre))\<rparr>"
      by simp
    then show ?thesis by blast
  qed
qed

lemma exact_run_sum: "exact_run c xs \<Longrightarrow> subtract_each c xs = c - sum_list xs"
proof (induction xs arbitrary: c)
  case Nil
  then show ?case by simp
next
  case (Cons x xs)
  then have r: "round_double (c - x) = c - x" and e: "exact_run (c - x) xs" by simp_all
  have "subtract_each c (x # xs) = subtract_each (c - x) xs" by (simp add: r)
  also have "\<dots> = c - x - sum_list xs" using e by (rule Cons.IH)
  finally show ?case by simp
qed

lemma mset_sorted_daily_stats [simp]: "mset (sorted_daily_stats ds) = mset ds"
  by (simp add: sorted_daily_stats_def)

lemma sorted_daily_stats_desc: "sorted (rev (map date (sorted_daily_stats ds)))"
  by (simp add: sorted_daily_stats_def rev_map)

lemma distinct_sorted_daily_stats:
  "distinct (map date ds) \<Longrightarrow> distinct (map date (sorted_daily_stats ds))"
proof -
  have "mset (map date (sorted_daily_stats ds)) = mset (map date ds)" by simp
  then show "distinct (map date ds) \<Longrightarrow> distinct (map date (sorted_daily_stats ds))"
    using mset_eq_imp_distinct_iff by blast
qed

lemma desc_split_filter:
  assumes "sorted (rev (map date xs))" "distinct (map date xs)" "xs = pre @ d # post"
  shows "filter (\<lambda>e. date d < date e) xs = pre"
proof -
  have s: "sorted (rev (map date post) @ date d # rev (map date pre))"
    using assms(1,3) by simp
  have pre: "\<forall>e\<in>set pre. date d < date e"
  proof
    fix e assume e: "e \<in> set pre"
    from s have "date d \<le> date e" using e by (auto simp: sorted_append)
    moreover have nd: "date d \<notin> date ` set pre" using assms(2,3) by simp
    have "date e \<noteq> date d"
    proof
      assume "date e = date d"
      then have "date d \<in> date ` set pre" using e by (metis imageI)
      with nd show False by contradiction
    qed
    ultimately show "date d < date e" by simp
  qed
  have post: "\<forall>e\<in>set post. \<not> date d < date e"
    using s by (auto simp: sorted_append)
  show ?thesis using pre post assms(3) by (simp add: filter_id_conv filter_empty_conv)
qed

lemma sum_filter_mset_eq:
  fixes f :: "'a \<Rightarrow> rat"
  assumes "mset xs = mset ys"
  shows "sum_list (map f (filter P xs)) = sum_list (map f (filter P ys))"
proof -
  have "mset (map f (filter P xs)) = mset (map f (filter P ys))"
    using assms by (metis mset_filter mset_map)
  then show ?thesis by (metis sum_mset_sum_list)
qed

lemma sum_filter_mono:
  fixes f :: "'a \<Rightarrow> rat"
  assumes "\<forall>x\<in>set xs. 0 \<le> f x" "\<forall>x\<in>set xs. Q x \<longrightarrow> P x"
  shows "sum_list (map f (filter Q xs)) \<le> sum_list (map f (filter P xs))"
  using assms by (induction xs) (auto intro: add_increasing)

lemma assigned_odometer:
  assumes "distinct (map date ds)"
    and "d' \<in> set (assign_odometers odo (sorted_daily_stats ds))"
  shows "odometer d' = subtract_each odo (more_recent (date d') ds)"
proof -
  let ?S = "sorted_daily_stats ds"
  from assign_member[OF assms(2)] obtain pre d post where
    h: "?S = pre @ d # post" "d' = d\<lparr>odometer := subtract_each odo (map distance pre)\<rparr>"
    by blast
  have "filter (\<lambda>e. date d < date e) ?S = pre"
    using desc_split_filter[OF sorted_daily_stats_desc distinct_sorted_daily_stats[OF assms(1)] h(1)] .
  then show ?thesis using h(2) by (simp add: more_recent_def)
qed

lemma sum_more_recent:
  "sum_list (more_recent t ds) = sum_list (map distance (filter (\<lambda>e. t < date e) ds))"
  unfolding more_recent_def by (rule sum_filter_mset_eq) simp

lemma assign_upper:
  assumes "round_double c = c" "\<forall>x\<in>set xs. 0 \<le> distance x"
    and "d \<in> set (assign_odometers c xs)"
  shows "odometer d \<le> c"
  using assms
proof (induction xs arbitrary: c)
  case Nil
  then show ?case by simp
next
  case (Cons x xs)
  show ?case
  proof (cases "d = x\<lparr>odometer := c\<rparr>")
    case True
    then show ?thesis by simp
  next
    case False
    with Cons.prems(3) have m: "d \<in> set (assign_odometers (round_double (c - distance x)) xs)"
      by simp
    have "c - distance x \<le> c" using Cons.prems(2) by simp
    with Cons.prems(1) have le: "round_double (c - distance x) \<le> c"
      by (rule round_double_le_fixed)
    have "odometer d \<le> round_double (c - distance x)"
      using Cons.prems(2) m by (intro Cons.IH) (simp_all add: round_double_idem)
    with le show ?thesis by simp
  qed
qed

lemma assign_sorted:
  assumes "round_double c = c" "\<forall>x\<in>set xs. 0 \<le> distance x"
    and "sorted_wrt (\<lambda>a b. date b < date a) xs"
  shows "sorted_wrt (\<lambda>a b. date b < date a \<and> odometer b \<le> odometer a) (assign_odometers c xs)"
  using assms
proof (induction xs arbitrary: c)
  case Nil
  then show ?case by simp
next
  case (Cons x xs)
  let ?c = "round_double (c - distance x)"
  have "c - distance x \<le> c" using Cons.prems(2) by simp
  with Cons.prems(1) have le: "?c \<le> c" by (rule round_double_le_fixed)
  have tail: "sorted_wrt (\<lambda>a b. date b < date a \<and> odometer b \<le> odometer a)
                (assign_odometers ?c xs)"
    using Cons.prems(2,3) by (intro Cons.IH) (simp_all add: round_double_idem)
  have head: "date b < date x \<and> odometer b \<le> c" if b: "b \<in> set (assign_odometers ?c xs)" for b
  proof -
    have "date ` set (assign_odometers ?c xs) = date ` set xs"
      using map_date_assign [of ?c xs] by (metis set_map)
    then have "date b \<in> date ` set xs" using b by blast
    then have "date b < date x" using Cons.prems(3) by auto
    moreover have "odometer b \<le> ?c"
      using Cons.prems(2) b by (intro assign_upper) (simp_all add: round_double_idem)
    ultimately show ?thesis using le by simp
  qed
  show ?case using tail head by simp
qed

lemma sorted_wrt_cases:
  assumes "sorted_wrt P xs" "a \<in> set xs" "b \<in> set xs"
  shows "a = b \<or> P a b \<or> P b a"
  using assms by (induction xs) auto

lemma sorted_daily_stats_strict:
  assumes "distinct (map date ds)"
  shows "sorted_wrt (\<lambda>a b. date b < date a) (sorted_daily_stats ds)"
proof -
  let ?S = "sorted_daily_stats ds"
  have "sorted (rev (map date ?S))" by (rule sorted_daily_stats_desc)
  moreover have "distinct (rev (map date ?S))"
    using distinct_sorted_daily_stats[OF assms] by simp
  ultimately have "sorted_wrt (<) (rev (map date ?S))" by (simp add: strict_sorted_iff)
  then have "sorted_wrt (\<lambda>a b. b < a) (map date ?S)" by (simp add: sorted_wrt_rev)
  then show ?thesis by (simp add: sorted_wrt_map)
qed

lemma set_backfill_subset:
  "set (backfill cp today v)
     \<subseteq> set (assign_odometers (vehicle_odometer v) (sorted_daily_stats (daily_stats v)))"
  by (auto simp: backfill_def Let_def filtered_stats_def)

text \<open>The pass over the three days with the distances 62.6, 59.2 and 40 km.\<close>

lemma float_backfill:
  "backfill None example_today float_vehicle =
     [(stat_on (2024, 1, 30) 40 8000)\<lparr>odometer := 7757054533959679 / 549755813888\<rparr>,
      (stat_on (2024, 1, 31) (4165829655317709 / 70368744177664) 11000)
        \<lparr>odometer := 7789600078141849 / 549755813888\<rparr>,
      (stat_on (2024, 2, 1) (8810166771043533 / 140737488355328) 12000)
        \<lparr>odometer := 3912007396045619 / 274877906944\<rparr>]"
  by (simp add: backfill_def sorted_daily_stats_def filtered_stats_def float_vehicle_def
        float_stats_def stat_on_def example_today_def float_eval)

lemma float_more_recent:
  "more_recent (2024, 1, 30) float_stats
     = [8810166771043533 / 140737488355328, 4165829655317709 / 70368744177664]"
  by (simp add: more_recent_def sorted_daily_stats_def float_stats_def stat_on_def)

text \<open>
  C3, as stated: the odometer of a day is the current odometer minus the sum of the
  distances of the more recent days. With the odometer at 14231.8 and the two more recent
  days at 62.6 and 59.2 km, the oldest day is given the double 14109.999999999998 (the
  record carries 14109), one subtraction after the other. The current odometer minus the
  sum of the two distances is 14110.0 as Python computes it, and 14110 minus 103/2^47 in
  exact arithmetic on the three doubles: neither is the odometer assigned.
\<close>

theorem reconciler_odometers_counterexample:
  "map date (backfill None example_today float_vehicle)
     = [(2024, 1, 30), (2024, 1, 31), (2024, 2, 1)]
   \<and> odometer (hd (backfill None example_today float_vehicle))
       = 7757054533959679 / 549755813888
   \<and> py_int (odometer (hd (backfill None example_today float_vehicle))) = 14109
   \<and> round_double (vehicle_odometer float_vehicle
        - py_sum (more_recent (2024, 1, 30) (daily_stats float_vehicle))) = 14110
   \<and> vehicle_odometer float_vehicle
        - sum_list (more_recent (2024, 1, 30) (daily_stats float_vehicle))
       = 14110 - 103 / 140737488355328
   \<and> 14110 - 103 / 140737488355328 \<noteq> (7757054533959679 / 549755813888 :: rat)"
proof -
  have d: "daily_stats float_vehicle = float_stats" "vehicle_odometer float_vehicle
      = 3912007396045619 / 274877906944"
    by (simp_all add: float_vehicle_def)
  have "round_double (3912007396045619 / 274877906944
          - py_sum [8810166771043533 / 140737488355328, 4165829655317709 / 70368744177664])
        = 14110"
    by (simp add: py_sum_def float_eval)
  then show ?thesis
    by (simp add: float_backfill float_more_recent d stat_on_def py_int_def)
qed

text \<open>
  C3, amended. When the dates of the daily statistics are pairwise distinct (one entry per
  calendar day), no distance is negative and the vehicle's odometer is a double, every entry
  is given an odometer: the vehicle's odometer, from which the distances of the strictly
  more recent days have been subtracted one at a time, the most recent day first, every
  difference rounded to a double. It is the vehicle's odometer minus the sum of these
  distances whenever no subtraction rounds. The odometers do not decrease with the date,
  and the entries selected for upload carry these odometers.
\<close>

theorem reconciler_odometers:
  assumes "distinct (map date (daily_stats v))"
    and "\<forall>d\<in>set (daily_stats v). 0 \<le> distance d"
    and "round_double (vehicle_odometer v) = vehicle_odometer v"
  shows "mset (map without_odometer
                 (assign_odometers (vehicle_odometer v) (sorted_daily_stats (daily_stats v))))
           = mset (map without_odometer (daily_stats v))
       \<and> (\<forall>d\<in>set (assign_odometers (vehicle_odometer v) (sorted_daily_stats (daily_stats v))).
            odometer d
              = subtract_each (vehicle_odometer v) (more_recent (date d) (daily_stats v)))
       \<and> (\<forall>d\<in>set (assign_odometers (vehicle_odometer v) (sorted_daily_stats (daily_stats v))).
            exact_run (vehicle_odometer v) (more_recent (date d) (daily_stats v))
            \<longrightarrow> odometer d = vehicle_odometer v
                   - sum_list (map distance (filter (\<lambda>e. date d < date e) (daily_stats v))))
       \<and> (\<forall>d\<in>set (assign_odometers (vehicle_odometer v) (sorted_daily_stats (daily_stats v))).
          \<forall>e\<in>set (assign_odometers (vehicle_odometer v) (sorted_daily_stats (daily_stats v))).
            date d \<le> date e \<longrightarrow> odometer d \<le> odometer e)
       \<and> set (backfill cp today v)
           \<subseteq> set (assign_odometers (vehicle_odometer v) (sorted_daily_stats (daily_stats v)))"
proof -
  let ?S = "sorted_daily_stats (daily_stats v)"
  let ?out = "assign_odometers (vehicle_odometer v) ?S"
  have eq: "\<forall>d\<in>set ?out. odometer d
              = subtract_each (vehicle_odometer v) (more_recent (date d) (daily_stats v))"
    using assigned_odometer[OF assms(1)] by blast
  have ex: "\<forall>d\<in>set ?out.
      exact_run (vehicle_odometer v) (more_recent (date d) (daily_stats v))
      \<longrightarrow> odometer d = vehicle_odometer v
             - sum_list (map distance (filter (\<lambda>e. date d < date e) (daily_stats v)))"
  proof (intro ballI impI)
    fix d assume d: "d \<in> set ?out"
      and r: "exact_run (vehicle_odometer v) (more_recent (date d) (daily_stats v))"
    have "odometer d = subtract_each (vehicle_odometer v) (more_recent (date d) (daily_stats v))"
      using eq d by blast
    also have "\<dots> = vehicle_odometer v - sum_list (more_recent (date d) (daily_stats v))"
      using r by (rule exact_run_sum)
    finally show "odometer d = vehicle_odometer v
        - sum_list (map distance (filter (\<lambda>e. date d < date e) (daily_stats v)))"
      by (simp add: sum_more_recent)
  qed
  have nonneg: "\<forall>x\<in>set ?S. 0 \<le> distance x"
  proof
    fix x assume x: "x \<in> set ?S"
    have "set ?S = set (daily_stats v)" by (rule mset_eq_setD) simp
    with x assms(2) show "0 \<le> distance x" by blast
  qed
  have srt: "sorted_wrt (\<lambda>a b. date b < date a \<and> odometer b \<le> odometer a) ?out"
    using assms(3) nonneg sorted_daily_stats_strict[OF assms(1)] by (rule assign_sorted)
  have mono: "\<forall>d\<in>set ?out. \<forall>e\<in>set ?out. date d \<le> date e \<longrightarrow> odometer d \<le> odometer e"
  proof (intro ballI impI)
    fix d e assume d: "d \<in> set ?out" and e: "e \<in> set ?out" and le: "date d \<le> date e"
    from sorted_wrt_cases[OF srt d e]
    consider "d = e" | "date e < date d \<and> odometer e \<le> odometer d"
      | "date d < date e \<and> odometer d \<le> odometer e"
      by blast
    then show "odometer d \<le> odometer e" using le by cases auto
  qed
  have dates: "mset (map without_odometer ?out) = mset (map without_odometer (daily_stats v))"
    by (simp add: without_odometer_assign)
  show ?thesis using eq ex mono dates set_backfill_subset by blast
qed

text \<open>
  At the three days above, the oldest day is selected for upload with the double
  14109.999999999998, which is 14231.8 after the subtraction of 62.6 and then of 59.2. At
  the four example days, whose distances are whole kilometres, no subtraction rounds:
  31 January is selected with odometer 988, and the more recent days (1 and 2 February)
  account for 5 + 7 = 12 km.
\<close>

theorem reconciler_odometers_witness:
  "distinct (map date (daily_stats float_vehicle))
   \<and> round_double (vehicle_odometer float_vehicle) = vehicle_odometer float_vehicle
   \<and> (stat_on (2024, 1, 30) 40 8000)\<lparr>odometer := 7757054533959679 / 549755813888\<rparr>
        \<in> set (backfill None example_today float_vehicle)
   \<and> subtract_each (3912007396045619 / 274877906944)
        [8810166771043533 / 140737488355328, 4165829655317709 / 70368744177664]
       = 7757054533959679 / 549755813888
   \<and> (stat_on (2024, 1, 31) 20 4000)\<lparr>odometer := 988\<rparr>
        \<in> set (backfill None example_today (vehicle_at False 60 80 100 0))
   \<and> exact_run 1000 (more_recent (2024, 1, 31) example_stats)
   \<and> sum_list (map distance (filter (\<lambda>e. (2024, 1, 31) < date e) example_stats)) = 12"
proof -
  let ?f = "float_vehicle"
  let ?y = "(stat_on (2024, 1, 30) 40 8000)\<lparr>odometer := 7757054533959679 / 549755813888\<rparr>"
  have f1: "distinct (map date (daily_stats ?f))"
    by (simp add: float_vehicle_def float_stats_def stat_on_def)
  have f2: "\<forall>d\<in>set (daily_stats ?f). 0 \<le> distance d"
    by (simp add: float_vehicle_def float_stats_def stat_on_def)
  have f3: "round_double (vehicle_odometer ?f) = vehicle_odometer ?f"
    by (simp add: float_vehicle_def float_eval)
  have fm: "?y \<in> set (backfill None example_today ?f)" by (simp add: float_backfill)
  note tf = reconciler_odometers [OF f1 f2 f3, of None example_today]
  from tf fm have "?y \<in> set (assign_odometers (vehicle_odometer ?f)
                      (sorted_daily_stats (daily_stats ?f)))"
    by blast
  with tf have "odometer ?y
      = subtract_each (vehicle_odometer ?f) (more_recent (date ?y) (daily_stats ?f))"
    by blast
  then have fs: "subtract_each (3912007396045619 / 274877906944)
        [8810166771043533 / 140737488355328, 4165829655317709 / 70368744177664]
       = 7757054533959679 / 549755813888"
    using float_more_recent by (simp add: float_vehicle_def stat_on_def)
  let ?v = "vehicle_at False 60 80 100 0"
  let ?x = "(stat_on (2024, 1, 31) 20 4000)\<lparr>odometer := 988\<rparr>"
  have h1: "distinct (map date (daily_stats ?v))" by code_simp
  have h2: "\<forall>d\<in>set (daily_stats ?v). 0 \<le> distance d"
    by (simp add: vehicle_at_def example_stats_def stat_on_def)
  have h3: "round_double (vehicle_odometer ?v) = vehicle_odometer ?v"
    by (simp add: vehicle_at_def float_eval)
  have m: "?x \<in> set (backfill None example_today ?v)" by code_simp
  have r: "exact_run 1000 (more_recent (2024, 1, 31) example_stats)" by code_simp
  note t = reconciler_odometers [OF h1 h2 h3, of None example_today]
  from t m have "?x \<in> set (assign_odometers (vehicle_odometer ?v)
                      (sorted_daily_stats (daily_stats ?v)))"
    by blast
  with t have "exact_run (vehicle_odometer ?v) (more_recent (date ?x) (daily_stats ?v))
      \<longrightarrow> odometer ?x = vehicle_odometer ?v
      - sum_list (map distance (filter (\<lambda>e. date ?x < date e) (daily_stats ?v)))"
    by blast
  with r have "sum_list (map distance (filter (\<lambda>e. (2024, 1, 31) < date e) example_stats)) = 12"
    by (simp add: vehicle_at_def stat_on_def)
  with f1 f3 fm fs m r show ?thesis by blast
qed

lemma yesterday_le: "yesterday t \<le> t"
  by (cases t) (auto simp: yesterday_def)

lemma days_in_month_le: "days_in_month y m \<le> 31"
  by (simp add: days_in_month_def)

lemma no_date_between:
  assumes "valid_date t" "valid_date d" "yesterday t < d" "d < t"
  shows False
proof -
  obtain y m dd where t: "t = (y, m, dd)" by (cases t) auto
  obtain y' m' dd' where d: "d = (y', m', dd')" by (cases d) auto
  have vt: "1 \<le> m" "1 \<le> dd"
    using assms(1) by (simp_all add: t valid_date_def)
  have vd: "1 \<le> m'" "m' \<le> 12" "1 \<le> dd'" "dd' \<le> days_in_month y' m'"
    using assms(2) by (simp_all add: d valid_date_def)
  have lt: "y' < y \<or> y' \<le> y \<and> (m' < m \<or> m' \<le> m \<and> dd' < dd)"
    using assms(4) by (simp add: t d)
  consider (day) "1 < dd" | (month) "dd = 1" "1 < m" | (year) "dd = 1" "m = 1"
    using vt by linarith
  then show False
  proof cases
    case day
    then have "y < y' \<or> y \<le> y' \<and> (m < m' \<or> m \<le> m' \<and> dd - 1 < dd')"
      using assms(3) by (simp add: t d yesterday_def)
    with lt show False by linarith
  next
    case month
    then have gt: "y < y' \<or> y \<le> y' \<and> (m - 1 < m' \<or> m - 1 \<le> m' \<and> days_in_month y (m - 1) < dd')"
      using assms(3) by (simp add: t d yesterday_def)
    from lt month vd(3) have "y' < y \<or> y' \<le> y \<and> m' < m" by linarith
    with gt have e: "y' = y" "m' = m - 1" "days_in_month y (m - 1) < dd'" by linarith+
    with vd(4) show False by simp
  next
    case year
    then have gt: "y - 1 < y' \<or> y - 1 \<le> y' \<and> (12 < m' \<or> 12 \<le> m' \<and> 31 < dd')"
      using assms(3) by (simp add: t d yesterday_def)
    from lt year vd(1,3) have "y' < y" by linarith
    with gt vd(2) have "31 < dd'" by linarith
    with vd(4) days_in_month_le[of y' m'] show False by linarith
  qed
qed

lemma filtered_stats_window: "filtered_stats cp today ds = filter (in_window cp today) ds"
  unfolding filtered_stats_def by (rule filter_cong) (simp_all add: in_window_def)

lemma in_window_assign:
  "map without_odometer (filter (in_window cp today) (assign_odometers c xs))
     = map without_odometer (filter (in_window cp today) xs)"
  by (induction xs arbitrary: c)
     (auto simp: in_window_def without_odometer_def split: option.splits)

lemma window_empty_after_yesterday:
  assumes "valid_date today" "valid_date (date d)" "yesterday today \<le> l"
  shows "\<not> in_window (Some l) today d"
proof
  assume "in_window (Some l) today d"
  then have "l < date d" "date d < today" by (simp_all add: in_window_def)
  with assms(3) have "yesterday today < date d" by simp
  with no_date_between[OF assms(1,2)] \<open>date d < today\<close> show False by blast
qed

lemma backfill_window:
  assumes "valid_date today" and "\<forall>d\<in>set (daily_stats v). valid_date (date d)"
  shows "mset (map without_odometer (backfill cp today v))
       = mset (map without_odometer (filter (in_window cp today) (daily_stats v)))"
proof (cases "\<exists>l. cp = Some l \<and> yesterday today \<le> l")
  case True
  then obtain l where l: "cp = Some l" "yesterday today \<le> l" by blast
  have "filter (in_window cp today) (daily_stats v) = []"
    using window_empty_after_yesterday[OF assms(1) _ l(2)] assms(2) l(1)
    by (simp add: filter_empty_conv)
  moreover have "backfill cp today v = []" using l by (simp add: backfill_def Let_def)
  ultimately show ?thesis by simp
next
  case False
  then have c: "\<not> (case cp of None \<Rightarrow> False | Some l \<Rightarrow> yesterday today \<le> l)"
    by (auto split: option.splits)
  let ?S = "sorted_daily_stats (daily_stats v)"
  have "mset (map without_odometer (backfill cp today v))
      = mset (map without_odometer
          (filter (in_window cp today) (assign_odometers (vehicle_odometer v) ?S)))"
    using c by (auto simp: backfill_def Let_def filtered_stats_window)
  also have "\<dots> = mset (map without_odometer (filter (in_window cp today) ?S))"
    by (simp only: in_window_assign)
  also have "\<dots> = mset (map without_odometer (filter (in_window cp today) (daily_stats v)))"
    by simp
  finally show ?thesis .
qed

lemma backfill_sorted: "sorted (map date (backfill cp today v))"
  by (simp add: backfill_def Let_def)

text \<open>
  C4. The list handed to the upload loop is sorted by date, oldest first, and holds,
  odometer aside, exactly the daily statistics whose date lies strictly between the
  checkpoint (if any) and today; with a checkpoint dated today or yesterday it is empty.
\<close>

theorem reconciler_output:
  assumes "valid_date today" and "\<forall>d\<in>set (daily_stats v). valid_date (date d)"
  shows "sorted (map date (backfill cp today v))
       \<and> mset (map without_odometer (backfill cp today v))
           = mset (map without_odometer (filter (in_window cp today) (daily_stats v)))
       \<and> backfill (Some today) today v = []
       \<and> backfill (Some (yesterday today)) today v = []"
  using backfill_sorted backfill_window[OF assms] yesterday_le
  by (simp add: backfill_def Let_def)


text \<open>
  With the checkpoint on 30 January and today on 2 February, 31 January and 1 February are
  selected, in that order.
\<close>

theorem reconciler_output_witness:
  "valid_date example_today
   \<and> sorted (map date (backfill (Some (2024, 1, 30)) example_today (vehicle_at False 60 80 100 0)))
   \<and> map date (backfill (Some (2024, 1, 30)) example_today (vehicle_at False 60 80 100 0))
       = [(2024, 1, 31), (2024, 2, 1)]
   \<and> backfill (Some example_today) example_today (vehicle_at False 60 80 100 0) = []"
proof -
  let ?v = "vehicle_at False 60 80 100 0"
  have h1: "valid_date example_today"
    by (simp add: example_today_def valid_date_def days_in_month_def is_leap_def)
  have h2: "\<forall>d\<in>set (daily_stats ?v). valid_date (date d)"
    by (simp add: vehicle_at_def example_stats_def stat_on_def valid_date_def
          days_in_month_def is_leap_def)
  note t = reconciler_output [OF h1 h2]
  have s: "sorted (map date (backfill (Some (2024, 1, 30)) example_today ?v))"
    using t [of "Some (2024, 1, 30)"] by blast
  have e: "backfill (Some example_today) example_today ?v = []"
    using t [of None] by blast
  have m: "map date (backfill (Some (2024, 1, 30)) example_today ?v)
         = [(2024, 1, 31), (2024, 2, 1)]"
    by code_simp
  from h1 s m e show ?thesis by blast
qed

section \<open>Record builder and tracking-service client: properties\<close>

lemma foldl_add_pos:
  assumes "0 \<le> a" "xs \<noteq> []" "\<forall>x\<in>set xs. 0 < x"
  shows "0 < foldl (\<lambda>acc x. round_double (acc + x)) a xs"
  using assms
proof (induction xs arbitrary: a)
  case Nil
  then show ?case by simp
next
  case (Cons x xs)
  have "0 < a + x" using Cons.prems(1,3) by simp
  then have p: "0 < round_double (a + x)" by (rule round_double_pos)
  show ?case
  proof (cases "xs = []")
    case True
    with p show ?thesis by simp
  next
    case False
    have "0 < foldl (\<lambda>acc x. round_double (acc + x)) (round_double (a + x)) xs"
      using p False Cons.prems(3) by (intro Cons.IH) simp_all
    then show ?thesis by simp
  qed
qed

lemma py_sum_pos:
  assumes "xs \<noteq> []" "\<forall>x\<in>set xs. 0 < x"
  shows "0 < py_sum xs"
  unfolding py_sum_def using assms by (intro foldl_add_pos) simp_all

lemma bc_consumption_of_total:
  "bc_consumption_of d =
     Inr (if 0 < total_consumed d
          then round1 (round_double (distance d / round_double (total_consumed d / 1000)))
          else 0)"
proof (cases "0 < total_consumed d")
  case True
  then have "0 < round_double (total_consumed d / 1000)" by (intro round_double_pos) simp
  then show ?thesis using True by (simp add: bc_consumption_of_def py_truediv_def)
next
  case False
  then show ?thesis by (simp add: bc_consumption_of_def)
qed

lemma trip_details_total: "\<exists>speed trip_note. trip_details info = Inr (speed, trip_note)"
proof (cases info)
  case None
  then show ?thesis by (simp add: trip_details_def)
next
  case (Some trips)
  let ?valid = "filter (\<lambda>t. 0 < trip_distance t \<and> 0 < max_speed t) trips"
  show ?thesis
  proof (cases "?valid")
    case Nil
    then show ?thesis using Some by (simp add: trip_details_def Let_def)
  next
    case (Cons t ts)
    have "\<forall>x\<in>set (map trip_distance ?valid). 0 < x" by auto
    moreover have "map trip_distance ?valid \<noteq> []" using Cons by simp
    ultimately have "0 < py_sum (map trip_distance ?valid)"
      by (rule py_sum_pos[rotated])
    then have "py_sum (map trip_distance ?valid) \<noteq> 0" by simp
    then show ?thesis using Some Cons
      by (simp add: trip_details_def Let_def py_truediv_def)
  qed
qed

lemma build_consumption_data_total:
  "\<exists>speed trip_note.
     trip_details (day_trip_info (vehicle c)) = Inr (speed, trip_note)
   \<and> build_consumption_data c day_stats =
     Inr \<lparr> cd_date = strftime_dmY (date day_stats),
           cd_odometer = py_int (odometer day_stats),
           trip = round1 (distance day_stats),
           quantity = round1 (round_double (total_consumed day_stats / 1000)),
           fuelsortid = 5,
           quantityunitid = 5,
           country = ''HU'',
           stationname = ''home'',
           charging_power = charging_power_in_kilowatts c,
           charging_duration = 0,
           charge_info = value_lower (charge_type c) @ '',source_vehicle'',
           percent = ev_battery_percentage (vehicle c),
           fueling_type = ''full'',
           bc_consumption = (if 0 < total_consumed day_stats
              then round1 (round_double
                     (distance day_stats / round_double (total_consumed day_stats / 1000)))
              else 0),
           bc_quantity = round1 (round_double (total_consumed day_stats / 1000)),
           bc_speed = speed,
           price = electricity_price c,
           currencyid = currency_id c,
           pricetype = 1,
           cd_note = energy_note day_stats @ trip_note \<rparr>"
proof -
  obtain speed trip_note where
    "trip_details (day_trip_info (vehicle c)) = Inr (speed, trip_note)"
    using trip_details_total by blast
  then show ?thesis
    by (simp add: build_consumption_data_def bc_consumption_of_total)
qed

lemma add_two_bounds:
  fixes x y B :: rat
  assumes "x \<le> 2 * B / 9007199254740992" "y \<le> 2 * B / 9007199254740992"
  shows "x + y \<le> 4 * B / 9007199254740992"
  using assms by linarith

lemma float_quotient_err:
  assumes "0 < t"
  shows "\<bar>round_double (a / round_double t) - a / t\<bar> \<le> \<bar>a / t\<bar> / 2251799813685248"
proof -
  define K where "K = round_double t"
  have "\<bar>K - t\<bar> \<le> \<bar>t\<bar> / 9007199254740992" unfolding K_def by (rule round_double_rel_err)
  then have kt: "\<bar>K - t\<bar> \<le> t / 9007199254740992" using assms by simp
  then have half: "t / 2 \<le> K" using assms by linarith
  then have K: "0 < K" using assms by linarith
  have inv: "\<bar>a\<bar> / K \<le> 2 * (\<bar>a\<bar> / t)"
  proof -
    have "\<bar>a\<bar> / K \<le> \<bar>a\<bar> / (t / 2)"
      using half assms K by (intro divide_left_mono) simp_all
    then show ?thesis by (simp add: ac_simps)
  qed
  have d1: "\<bar>a / K - a / t\<bar> \<le> 2 * (\<bar>a\<bar> / t) / 9007199254740992"
  proof -
    have "a / K - a / t = a / K * ((t - K) / t)"
      using K assms by (simp add: field_simps)
    then have "\<bar>a / K - a / t\<bar> = \<bar>a\<bar> / K * (\<bar>K - t\<bar> / t)"
      using K assms by (simp add: abs_mult abs_minus_commute)
    also have "\<dots> \<le> \<bar>a\<bar> / K * (1 / 9007199254740992)"
    proof (rule mult_left_mono)
      show "\<bar>K - t\<bar> / t \<le> 1 / 9007199254740992"
        using kt assms by (simp add: field_simps)
      show "0 \<le> \<bar>a\<bar> / K" using K by simp
    qed
    also have "\<dots> \<le> 2 * (\<bar>a\<bar> / t) * (1 / 9007199254740992)"
      using inv by (intro mult_right_mono) simp_all
    finally show ?thesis by simp
  qed
  have d2: "\<bar>round_double (a / K) - a / K\<bar> \<le> 2 * (\<bar>a\<bar> / t) / 9007199254740992"
  proof -
    have "\<bar>round_double (a / K) - a / K\<bar> \<le> \<bar>a / K\<bar> / 9007199254740992"
      by (rule round_double_rel_err)
    also have "\<bar>a / K\<bar> = \<bar>a\<bar> / K" using K by simp
    also have "\<bar>a\<bar> / K / 9007199254740992 \<le> 2 * (\<bar>a\<bar> / t) / 9007199254740992"
      using inv by (intro divide_right_mono) simp_all
    finally show ?thesis .
  qed
  have "\<bar>round_double (a / K) - a / t\<bar>
      \<le> \<bar>round_double (a / K) - a / K\<bar> + \<bar>a / K - a / t\<bar>"
    by linarith
  also have "\<dots> \<le> 4 * (\<bar>a\<bar> / t) / 9007199254740992"
    using d2 d1 by (rule add_two_bounds)
  also have "\<dots> = \<bar>a / t\<bar> / 2251799813685248" using assms by simp
  finally show ?thesis by (simp add: K_def)
qed

lemma abs_triangle_shift:
  fixes q d E b :: rat
  assumes "\<bar>q - d\<bar> \<le> 1 / 20" "\<bar>q - E\<bar> \<le> b"
  shows "\<bar>E - d\<bar> \<le> 1 / 20 + b"
  using assms by linarith

lemma round1_decimal:
  "\<exists>k. round1 x = round_double (of_int k / 10) \<and> \<bar>x - of_int k / 10\<bar> \<le> 1 / 20"
proof -
  define k where "k = py_round (x * 10)"
  have "\<bar>of_int k - x * 10\<bar> \<le> (1 / 2 :: rat)" unfolding k_def by (rule py_round_bound)
  then have "\<bar>x - of_int k / 10\<bar> \<le> 1 / 20" by linarith
  then show ?thesis unfolding round1_def k_def by blast
qed

text \<open>
  C8. Building the record never raises: the division is never reached with a zero
  divisor. When the consumed energy is positive, \<open>bc_consumption\<close> is the distance divided by
  the consumed energy in kWh, rounded to one decimal: it is the double nearest to a decimal
  \<open>k/10\<close> that lies within 0.05 of the quotient as Python computes it (two float
  divisions), and within 0.05 of the exact quotient up to the error of these two divisions
  (a \<open>2^51\<close>-th of the quotient). Otherwise it is 0.
\<close>

theorem bc_consumption_guarded:
  "\<exists>r. build_consumption_data c day_stats = Inr r
       \<and> (if 0 < total_consumed day_stats
          then \<exists>k. bc_consumption r = round_double (of_int k / 10)
                 \<and> \<bar>round_double (distance day_stats
                         / round_double (total_consumed day_stats / 1000))
                      - of_int k / 10\<bar> \<le> 1 / 20
                 \<and> \<bar>distance day_stats / (total_consumed day_stats / 1000) - of_int k / 10\<bar>
                     \<le> 1 / 20
                        + \<bar>distance day_stats / (total_consumed day_stats / 1000)\<bar>
                          / 2251799813685248
          else bc_consumption r = 0)"
proof -
  obtain r where r: "build_consumption_data c day_stats = Inr r"
    and bc: "bc_consumption r = (if 0 < total_consumed day_stats
       then round1 (round_double
              (distance day_stats / round_double (total_consumed day_stats / 1000)))
       else 0)"
    using build_consumption_data_total [of c day_stats] by auto
  show ?thesis
  proof (cases "0 < total_consumed day_stats")
    case False
    with r bc show ?thesis by simp
  next
    case True
    let ?q = "round_double (distance day_stats / round_double (total_consumed day_stats / 1000))"
    let ?E = "distance day_stats / (total_consumed day_stats / 1000)"
    obtain k where k: "round1 ?q = round_double (of_int k / 10)"
      "\<bar>?q - of_int k / 10\<bar> \<le> 1 / 20"
      using round1_decimal by blast
    have "0 < total_consumed day_stats / 1000" using True by simp
    from float_quotient_err [OF this, of "distance day_stats"]
    have "\<bar>?q - ?E\<bar> \<le> \<bar>?E\<bar> / 2251799813685248" .
    with k(2) have "\<bar>?E - of_int k / 10\<bar> \<le> 1 / 20 + \<bar>?E\<bar> / 2251799813685248"
      by (rule abs_triangle_shift)
    with k True bc have "bc_consumption r = round_double (of_int k / 10)
        \<and> \<bar>?q - of_int k / 10\<bar> \<le> 1 / 20
        \<and> \<bar>?E - of_int k / 10\<bar> \<le> 1 / 20 + \<bar>?E\<bar> / 2251799813685248"
      by simp
    then show ?thesis using r True by auto
  qed
qed

lemma map_of_filter_hit:
  "k \<notin> fst ` set pre \<Longrightarrow> P (k, v) \<Longrightarrow> map_of (filter P (pre @ (k, v) # post)) k = Some v"
  by (induction pre) auto

lemma request_fuelsortid:
  "map_of (query_items (request_data data)) ''fuelsortid'' = Some (PStr ''19'')"
proof -
  let ?pre = "[(''date'', PStr (cd_date data)),
      (''odometer'', PInt (cd_odometer data)),
      (''trip'', PFloat (trip data)),
      (''quantity'', PFloat (quantity data)),
      (''type'', PStr (fueling_type data)),
      (''price'', PFloat (price data)),
      (''currencyid'', PInt (currencyid data)),
      (''pricetype'', PInt (pricetype data))]"
  have "\<exists>post. request_data data = ?pre @ (''fuelsortid'', PStr ''19'') # post"
    by (simp add: request_data_def)
  then obtain post where p: "request_data data = ?pre @ (''fuelsortid'', PStr ''19'') # post"
    by blast
  have k: "''fuelsortid'' \<notin> fst ` set ?pre" by simp
  show ?thesis
    unfolding query_items_def p by (rule map_of_filter_hit[OF k]) simp
qed

lemma request_charge_info:
  "map_of (query_items (request_data data)) ''charge_info''
     = Some (PStr (charge_info data @ '',source_vehicle''))"
proof -
  let ?pre = "[(''date'', PStr (cd_date data)),
      (''odometer'', PInt (cd_odometer data)),
      (''trip'', PFloat (trip data)),
      (''quantity'', PFloat (quantity data)),
      (''type'', PStr (fueling_type data)),
      (''price'', PFloat (price data)),
      (''currencyid'', PInt (currencyid data)),
      (''pricetype'', PInt (pricetype data)),
      (''fuelsortid'', PStr ''19''),
      (''quantityunitid'', PInt (quantityunitid data))]"
  let ?v = "PStr (charge_info data @ '',source_vehicle'')"
  have "\<exists>post. request_data data = ?pre @ (''charge_info'', ?v) # post"
    by (simp add: request_data_def)
  then obtain post where p: "request_data data = ?pre @ (''charge_info'', ?v) # post"
    by blast
  have k: "''charge_info'' \<notin> fst ` set ?pre" by simp
  show ?thesis
    unfolding query_items_def p by (rule map_of_filter_hit[OF k]) simp
qed


lemma map_of_filter_miss:
  "k \<notin> fst ` set xs \<Longrightarrow> map_of (filter P xs) k = None"
  by (induction xs) auto

lemma request_no_duration:
  assumes "charging_duration data = 0"
  shows "map_of (query_items (request_data data)) ''charging_duration'' = None"
proof -
  have "''charging_duration'' \<notin> fst ` set (request_data data)"
    using assms by (auto simp: request_data_def)
  then show ?thesis unfolding query_items_def by (rule map_of_filter_miss)
qed

text \<open>
  C10. Whatever record is handed to the tracking-service client, the request carries
  \<open>fuelsortid\<close> "19" and the record's \<open>charge_info\<close> followed by ",source_vehicle". The
  record builder sets \<open>fuelsortid\<close> to 5 and already ends \<open>charge_info\<close> with
  ",source_vehicle", so the transmitted text carries the suffix twice.
\<close>

theorem transmitted_fuelsort_and_charge_info:
  "map_of (query_items (request_data data)) ''fuelsortid'' = Some (PStr ''19'')
   \<and> map_of (query_items (request_data data)) ''charge_info''
       = Some (PStr (charge_info data @ '',source_vehicle''))
   \<and> (\<exists>r. build_consumption_data c day_stats = Inr r
          \<and> fuelsortid r = 5
          \<and> charge_info r = value_lower (charge_type c) @ '',source_vehicle''
          \<and> map_of (query_items (request_data r)) ''fuelsortid'' = Some (PStr ''19'')
          \<and> map_of (query_items (request_data r)) ''charge_info''
              = Some (PStr (value_lower (charge_type c) @ '',source_vehicle,source_vehicle'')))"
proof -
  obtain r where r: "build_consumption_data c day_stats = Inr r" "fuelsortid r = 5"
    "charge_info r = value_lower (charge_type c) @ '',source_vehicle''"
    using build_consumption_data_total [of c day_stats] by auto
  have "map_of (query_items (request_data r)) ''charge_info''
      = Some (PStr (value_lower (charge_type c) @ '',source_vehicle,source_vehicle''))"
    by (simp add: request_charge_info r(3))
  with r request_fuelsortid request_charge_info show ?thesis by blast
qed


text \<open>
  A day with 21 km on 20 kWh: the quotient is the double 1.05, which lies above 1.05, and
  the field is the double 1.1. A day with no energy consumed gives 0.
\<close>

theorem bc_consumption_guarded_witness:
  "bc_consumption (projr (build_consumption_data (fresh_client (vehicle_at False 60 80 100 0))
      (stat_on (2024, 1, 30) 21 20000))) = 2476979795053773 / 2251799813685248
   \<and> round_double (21 / round_double (20000 / 1000)) = 4728779608739021 / 4503599627370496
   \<and> round_double (11 / 10) = 2476979795053773 / 2251799813685248
   \<and> bc_consumption (projr (build_consumption_data (fresh_client (vehicle_at False 60 80 100 0))
      (stat_on (2024, 2, 2) 7 0))) = 0"
proof -
  let ?c = "fresh_client (vehicle_at False 60 80 100 0)"
  have q: "round_double (21 / round_double (20000 / 1000))
         = 4728779608739021 / 4503599627370496"
    by (simp add: float_eval)
  have e: "round_double (11 / 10) = 2476979795053773 / 2251799813685248"
    by (simp add: float_eval)
  obtain r k where r: "build_consumption_data ?c (stat_on (2024, 1, 30) 21 20000) = Inr r"
    "bc_consumption r = round_double (of_int k / 10)"
    "\<bar>round_double (21 / round_double (20000 / 1000)) - of_int k / 10\<bar> \<le> 1 / 20"
    using bc_consumption_guarded [of ?c "stat_on (2024, 1, 30) 21 20000"]
    by (auto simp: stat_on_def)
  from r(3) have "\<bar>4728779608739021 / 4503599627370496 - rat_of_int k / 10\<bar> \<le> 1 / 20"
    by (simp only: q)
  then have "(10::rat) < of_int k" "of_int k < (12::rat)" by linarith+
  then have "10 < k" "k < 12" by simp_all
  then have "k = 11" by simp
  with r(2) e have b: "bc_consumption r = 2476979795053773 / 2251799813685248" by simp
  obtain r0 where r0: "build_consumption_data ?c (stat_on (2024, 2, 2) 7 0) = Inr r0"
    "bc_consumption r0 = 0"
    using bc_consumption_guarded [of ?c "stat_on (2024, 2, 2) 7 0"]
    by (auto simp: stat_on_def)
  show ?thesis using r(1) b q e r0 by simp
qed

text \<open>A fresh client (charge type UNKNOWN) sends "unknown,source_vehicle,source_vehicle".\<close>

theorem transmitted_fuelsort_and_charge_info_witness:
  "map_of (query_items (request_data (projr (build_consumption_data
      (fresh_client (vehicle_at False 60 80 100 0)) (stat_on (2024, 1, 30) 10 2000)))))
      ''charge_info'' = Some (PStr ''unknown,source_vehicle,source_vehicle'')
   \<and> map_of (query_items (request_data (projr (build_consumption_data
      (fresh_client (vehicle_at False 60 80 100 0)) (stat_on (2024, 1, 30) 10 2000)))))
      ''fuelsortid'' = Some (PStr ''19'')"
proof -
  let ?c = "fresh_client (vehicle_at False 60 80 100 0)"
  let ?d = "stat_on (2024, 1, 30) 10 2000"
  obtain r where r: "build_consumption_data ?c ?d = Inr r"
    "map_of (query_items (request_data r)) ''fuelsortid'' = Some (PStr ''19'')"
    "map_of (query_items (request_data r)) ''charge_info''
       = Some (PStr (value_lower (charge_type ?c) @ '',source_vehicle,source_vehicle''))"
    using transmitted_fuelsort_and_charge_info [of _ ?c ?d] by blast
  have "charge_type ?c = UNKNOWN" by (simp add: fresh_client_def client_init_def)
  with r show ?thesis by simp
qed

section \<open>Upload sequencer: properties\<close>

lemma month_calls_append: "month_calls (a @ b) = month_calls a @ month_calls b"
  by (induction a rule: month_calls.induct) simp_all

lemma day_calls_append: "day_calls (a @ b) = day_calls a @ day_calls b"
  by (induction a rule: day_calls.induct) simp_all

lemma hydrated_append:
  "hydrated cur (a @ b) = (hydrated cur a \<and> hydrated (last_month cur a) b)"
  by (induction cur a rule: hydrated.induct) simp_all

lemma hydrated_precedes:
  "hydrated cur evs \<Longrightarrow> evs = pre @ DayHydration d # post \<Longrightarrow>
   MonthHydration (strftime_Ym d) \<in> set pre \<or> cur = Some (strftime_Ym d)"
proof (induction pre arbitrary: cur evs)
  case Nil
  then show ?case by simp
next
  case (Cons x pre)
  then obtain evs' where evs: "evs = x # evs'" "evs' = pre @ DayHydration d # post" by simp
  show ?case
  proof (cases x)
    case (MonthHydration m)
    with Cons.prems(1) evs have "hydrated (Some m) evs'" by simp
    from Cons.IH[OF this evs(2)] MonthHydration show ?thesis by auto
  next
    case (DayHydration d')
    with Cons.prems(1) evs have "hydrated cur evs'" by auto
    from Cons.IH[OF this evs(2)] show ?thesis by auto
  next
    case (Upload v t q)
    with Cons.prems(1) evs have "hydrated cur evs'" by simp
    from Cons.IH[OF this evs(2)] show ?thesis by auto
  qed
qed

lemma send_events:
  "snd (send_consumption_to_spritmonitor e c d) = []
   \<or> (\<exists>v t q. snd (send_consumption_to_spritmonitor e c d) = [Upload v t q])"
  by (auto simp: send_consumption_to_spritmonitor_def Let_def split: option.splits sum.splits)

lemma send_no_calls [simp]:
  "month_calls (snd (send_consumption_to_spritmonitor e c d)) = []"
  "day_calls (snd (send_consumption_to_spritmonitor e c d)) = []"
  "hydrated cur (snd (send_consumption_to_spritmonitor e c d))"
  "last_month cur (snd (send_consumption_to_spritmonitor e c d)) = cur"
  using send_events[of e c d] by auto

lemma upload_loop_Cons:
  "upload_loop e c cur (d # ds) =
     (case update_day_trip_info e (date d) of
        Inl ex \<Rightarrow>
          (Abandoned ex,
           (if Some (strftime_Ym (date d)) \<noteq> cur then [MonthHydration (strftime_Ym (date d))]
            else []) @ [DayHydration (date d)])
      | Inr info \<Rightarrow>
          (case fst (send_consumption_to_spritmonitor e
                       (c\<lparr>vehicle := (vehicle c)\<lparr>day_trip_info := info\<rparr>\<rparr>) d) of
             Inl ex \<Rightarrow>
               (Raised ex,
                (if Some (strftime_Ym (date d)) \<noteq> cur
                 then [MonthHydration (strftime_Ym (date d))] else [])
                @ [DayHydration (date d)]
                @ snd (send_consumption_to_spritmonitor e
                         (c\<lparr>vehicle := (vehicle c)\<lparr>day_trip_info := info\<rparr>\<rparr>) d))
           | Inr u \<Rightarrow>
               (fst (upload_loop e (c\<lparr>vehicle := (vehicle c)\<lparr>day_trip_info := info\<rparr>\<rparr>)
                       (Some (strftime_Ym (date d))) ds),
                (if Some (strftime_Ym (date d)) \<noteq> cur
                 then [MonthHydration (strftime_Ym (date d))] else [])
                @ [DayHydration (date d)]
                @ snd (send_consumption_to_spritmonitor e
                         (c\<lparr>vehicle := (vehicle c)\<lparr>day_trip_info := info\<rparr>\<rparr>) d)
                @ snd (upload_loop e (c\<lparr>vehicle := (vehicle c)\<lparr>day_trip_info := info\<rparr>\<rparr>)
                         (Some (strftime_Ym (date d))) ds))))"
  by (auto simp: upload_loop.simps Let_def split: sum.splits prod.splits)

lemma upload_loop_Nil [simp]: "upload_loop e c cur [] = (Completed, [])"
  by (simp add: upload_loop.simps)


lemma day_calls_completed:
  "fst (upload_loop e c cur days) = Completed \<Longrightarrow>
   day_calls (snd (upload_loop e c cur days)) = map date days"
proof (induction days arbitrary: c cur)
  case Nil
  then show ?case by simp
next
  case (Cons d ds)
  then show ?case
    by (auto simp: upload_loop_Cons day_calls_append split: sum.splits)
qed

lemma day_calls_prefix:
  "\<exists>n. day_calls (snd (upload_loop e c cur days)) = take n (map date days)"
proof (induction days arbitrary: c cur)
  case Nil
  then show ?case by simp
next
  case (Cons d ds)
  show ?case
  proof (cases "fst (upload_loop e c cur (d # ds)) = Completed")
    case True
    then have "day_calls (snd (upload_loop e c cur (d # ds)))
             = take (length (d # ds)) (map date (d # ds))"
      using day_calls_completed by simp
    then show ?thesis by blast
  next
    case False
    show ?thesis
    proof (cases "update_day_trip_info e (date d)")
      case (Inl ex)
      then have "day_calls (snd (upload_loop e c cur (d # ds))) = take 1 (map date (d # ds))"
        by (simp add: upload_loop_Cons day_calls_append)
      then show ?thesis by blast
    next
      case (Inr info)
      let ?c = "c\<lparr>vehicle := (vehicle c)\<lparr>day_trip_info := info\<rparr>\<rparr>"
      show ?thesis
      proof (cases "fst (send_consumption_to_spritmonitor e ?c d)")
        case (Inl ex)
        with Inr have "day_calls (snd (upload_loop e c cur (d # ds)))
                     = take 1 (map date (d # ds))"
          by (simp add: upload_loop_Cons day_calls_append)
        then show ?thesis by blast
      next
        case (Inr u)
        obtain n where n: "day_calls (snd (upload_loop e ?c (Some (strftime_Ym (date d))) ds))
                         = take n (map date ds)"
          using Cons.IH by blast
        with Inr \<open>update_day_trip_info e (date d) = Inr info\<close>
        have "day_calls (snd (upload_loop e c cur (d # ds))) = take (Suc n) (map date (d # ds))"
          by (simp add: upload_loop_Cons day_calls_append)
        then show ?thesis by blast
      qed
    qed
  qed
qed

lemma month_calls_loop:
  "(case cur of None \<Rightarrow> [] | Some m \<Rightarrow> [m]) @ month_calls (snd (upload_loop e c cur days))
   = remdups_adj ((case cur of None \<Rightarrow> [] | Some m \<Rightarrow> [m])
                   @ map strftime_Ym (day_calls (snd (upload_loop e c cur days))))"
proof (induction days arbitrary: c cur)
  case Nil
  then show ?case by (simp split: option.splits)
next
  case (Cons d ds)
  show ?case
  proof (cases "update_day_trip_info e (date d)")
    case (Inl ex)
    then show ?thesis
      by (simp add: upload_loop_Cons month_calls_append day_calls_append split: option.splits)
  next
    case (Inr info)
    let ?c = "c\<lparr>vehicle := (vehicle c)\<lparr>day_trip_info := info\<rparr>\<rparr>"
    show ?thesis
    proof (cases "fst (send_consumption_to_spritmonitor e ?c d)")
      case (Inl ex)
      with Inr show ?thesis
        by (simp add: upload_loop_Cons month_calls_append day_calls_append split: option.splits)
    next
      case (Inr u)
      note ih = Cons.IH [where c = ?c and cur = "Some (strftime_Ym (date d))", simplified]
      from Inr \<open>update_day_trip_info e (date d) = Inr info\<close> ih show ?thesis
        by (auto simp: upload_loop_Cons month_calls_append day_calls_append split: option.splits)
    qed
  qed
qed

lemma last_month_loop_head:
  "last_month cur ((if Some m \<noteq> cur then [MonthHydration m] else []) @ [DayHydration d] @ evs)
   = last_month (Some m) evs"
  by auto

lemma hydrated_loop: "hydrated cur (snd (upload_loop e c cur days))"
proof (induction days arbitrary: c cur)
  case Nil
  then show ?case by simp
next
  case (Cons d ds)
  show ?case
  proof (cases "update_day_trip_info e (date d)")
    case (Inl ex)
    then show ?thesis by (auto simp: upload_loop_Cons)
  next
    case (Inr info)
    let ?c = "c\<lparr>vehicle := (vehicle c)\<lparr>day_trip_info := info\<rparr>\<rparr>"
    note ih = Cons.IH [where c = ?c and cur = "Some (strftime_Ym (date d))"]
    show ?thesis
    proof (cases "fst (send_consumption_to_spritmonitor e ?c d)")
      case (Inl ex)
      with Inr show ?thesis by (auto simp: upload_loop_Cons hydrated_append)
    next
      case (Inr u)
      with \<open>update_day_trip_info e (date d) = Inr info\<close> ih show ?thesis
        by (auto simp: upload_loop_Cons hydrated_append)
    qed
  qed
qed

lemma strftime_Ym_mono: "d1 \<le> d2 \<Longrightarrow> strftime_Ym d1 \<le> strftime_Ym d2"
  by (cases d1; cases d2) (auto simp: strftime_Ym_def)

lemma sorted_distinct_adj_strict:
  fixes xs :: "('a::linorder) list"
  shows "sorted xs \<Longrightarrow> distinct_adj xs \<Longrightarrow> sorted_wrt (<) xs"
proof (induction xs)
  case Nil
  then show ?case by simp
next
  case (Cons x xs)
  show ?case
  proof (cases xs)
    case Nil
    then show ?thesis by simp
  next
    case (Cons y ys)
    with Cons.prems have xy: "x < y" and ys: "\<forall>z\<in>set ys. y \<le> z"
      and rest: "sorted xs" "distinct_adj xs"
      by (auto simp: distinct_adj_Cons)
    from xy ys have "\<forall>z\<in>set xs. x < z" using Cons by auto
    with Cons.IH[OF rest] show ?thesis by simp
  qed
qed

lemma months_strictly_sorted:
  assumes "sorted ds"
  shows "sorted_wrt (<) (remdups_adj (map strftime_Ym ds))"
proof -
  have "sorted (map strftime_Ym ds)"
    using assms by (intro sorted_map_mono) (auto simp: mono_on_def strftime_Ym_mono)
  then show ?thesis
    by (intro sorted_distinct_adj_strict) simp_all
qed

text \<open>
  C7, amended: in every pass the month-hydration calls are exactly one per calendar month of
  the days whose day hydration was called, in chronological order, and each day-hydration
  call comes after the call for its month. The days reached are a prefix of the selected
  days, and all of them when the pass runs to its end: then a set spanning k months gets
  exactly k month-hydration calls.
\<close>

theorem month_hydration_calls:
  assumes "process_and_upload_daily_stats e c today = (out, evs)"
  shows "month_calls evs = remdups_adj (map strftime_Ym (day_calls evs))
       \<and> sorted_wrt (<) (month_calls evs)
       \<and> length (month_calls evs) = card (strftime_Ym ` set (day_calls evs))
       \<and> (\<forall>pre d post. evs = pre @ DayHydration d # post
             \<longrightarrow> MonthHydration (strftime_Ym d) \<in> set pre)
       \<and> (\<exists>n. day_calls evs = take n (map date (backfill (latest_date_of e) today (vehicle c))))
       \<and> (out = Completed
             \<longrightarrow> day_calls evs = map date (backfill (latest_date_of e) today (vehicle c)))"
proof -
  let ?days = "backfill (latest_date_of e) today (vehicle c)"
  have evs: "evs = snd (upload_loop e c None ?days)"
    and out: "out = fst (upload_loop e c None ?days)"
    using assms by (simp_all add: process_and_upload_daily_stats_def)
  have m: "month_calls evs = remdups_adj (map strftime_Ym (day_calls evs))"
    using month_calls_loop [of None e c ?days] by (simp add: evs)
  obtain n where n: "day_calls evs = take n (map date ?days)"
    using day_calls_prefix [of e c None ?days] evs by blast
  have "sorted (take n (map date ?days))"
    using backfill_sorted by (rule sorted_wrt_take)
  then have s: "sorted_wrt (<) (month_calls evs)"
    unfolding m n by (rule months_strictly_sorted)
  then have "distinct (month_calls evs)" by (simp add: strict_sorted_iff)
  then have "card (set (month_calls evs)) = length (month_calls evs)" by (rule distinct_card)
  then have k: "length (month_calls evs) = card (strftime_Ym ` set (day_calls evs))"
    by (simp add: m)
  have h: "hydrated None evs" using hydrated_loop [of None e c ?days] by (simp add: evs)
  have p: "\<forall>pre d post. evs = pre @ DayHydration d # post
             \<longrightarrow> MonthHydration (strftime_Ym d) \<in> set pre"
  proof (intro allI impI)
    fix pre d post
    assume "evs = pre @ DayHydration d # post"
    from hydrated_precedes [OF h this] show "MonthHydration (strftime_Ym d) \<in> set pre"
      by simp
  qed
  have d: "out = Completed \<longrightarrow> day_calls evs = map date ?days"
    using day_calls_completed [of e c None ?days] evs out by simp
  from m s k p n d show ?thesis by blast
qed

lemma failing_day:
  assumes "update_day_trip_info e (date d) = Inl ex
         \<or> (\<exists>info. update_day_trip_info e (date d) = Inr info
              \<and> fst (send_consumption_to_spritmonitor e
                       (c\<lparr>vehicle := (vehicle c)\<lparr>day_trip_info := info\<rparr>\<rparr>) d) = Inl ex)"
  shows "upload_loop e c cur (d # rest) = upload_loop e c cur [d]"
    and "fst (upload_loop e c cur (d # rest))
           = (if isl (update_day_trip_info e (date d)) then Abandoned ex else Raised ex)"
    and "day_calls (snd (upload_loop e c cur (d # rest))) = [date d]"
  using assms by (auto simp: upload_loop_Cons day_calls_append)

lemma completed_Cons:
  assumes "fst (upload_loop e c cur (x # xs)) = Completed"
  shows "\<exists>info. update_day_trip_info e (date x) = Inr info
           \<and> fst (send_consumption_to_spritmonitor e
                    (c\<lparr>vehicle := (vehicle c)\<lparr>day_trip_info := info\<rparr>\<rparr>) x) = Inr ()
           \<and> fst (upload_loop e (c\<lparr>vehicle := (vehicle c)\<lparr>day_trip_info := info\<rparr>\<rparr>)
                    (Some (strftime_Ym (date x))) xs) = Completed"
  using assms by (auto simp: upload_loop_Cons split: sum.splits)

lemma failing_day_after_prefix:
  assumes "fst (upload_loop e c cur pre) = Completed"
    and "update_day_trip_info e (date d) = Inl ex
         \<or> (\<exists>info. update_day_trip_info e (date d) = Inr info
              \<and> fst (send_consumption_to_spritmonitor e
                       (c\<lparr>vehicle := (vehicle c)\<lparr>day_trip_info := info\<rparr>\<rparr>) d) = Inl ex)"
  shows "upload_loop e c cur (pre @ d # rest) = upload_loop e c cur (pre @ [d])
       \<and> fst (upload_loop e c cur (pre @ d # rest))
           = (if isl (update_day_trip_info e (date d)) then Abandoned ex else Raised ex)
       \<and> day_calls (snd (upload_loop e c cur (pre @ d # rest))) = map date pre @ [date d]"
  using assms
proof (induction pre arbitrary: c cur)
  case Nil
  then show ?case using failing_day [of e d ex c cur rest] by simp
next
  case (Cons x xs)
  from completed_Cons [OF Cons.prems(1)] obtain info where
    i: "update_day_trip_info e (date x) = Inr info"
       "fst (send_consumption_to_spritmonitor e
              (c\<lparr>vehicle := (vehicle c)\<lparr>day_trip_info := info\<rparr>\<rparr>) x) = Inr ()"
       "fst (upload_loop e (c\<lparr>vehicle := (vehicle c)\<lparr>day_trip_info := info\<rparr>\<rparr>)
              (Some (strftime_Ym (date x))) xs) = Completed"
    by blast
  let ?c = "c\<lparr>vehicle := (vehicle c)\<lparr>day_trip_info := info\<rparr>\<rparr>"
  have f: "update_day_trip_info e (date d) = Inl ex
         \<or> (\<exists>info. update_day_trip_info e (date d) = Inr info
              \<and> fst (send_consumption_to_spritmonitor e
                       (?c\<lparr>vehicle := (vehicle ?c)\<lparr>day_trip_info := info\<rparr>\<rparr>) d) = Inl ex)"
    using Cons.prems(2) by simp
  note ih = Cons.IH [OF i(3) f]
  have g1: "upload_loop e c cur ((x # xs) @ d # rest) = upload_loop e c cur ((x # xs) @ [d])"
    using i(1,2) ih [THEN conjunct1] by (simp add: upload_loop_Cons)
  have g2: "fst (upload_loop e c cur ((x # xs) @ d # rest))
          = (if isl (update_day_trip_info e (date d)) then Abandoned ex else Raised ex)"
    using i(1,2) ih [THEN conjunct2, THEN conjunct1] by (simp add: upload_loop_Cons)
  have g3: "day_calls (snd (upload_loop e c cur ((x # xs) @ d # rest)))
          = map date (x # xs) @ [date d]"
    using i(1,2) ih [THEN conjunct2, THEN conjunct2]
    by (simp add: upload_loop_Cons day_calls_append)
  from g1 g2 g3 show ?case by blast
qed

lemma send_ignores_month_hydration:
  "send_consumption_to_spritmonitor (e\<lparr>update_month_trip_info := f\<rparr>) c d
     = send_consumption_to_spritmonitor e c d"
  by (simp add: send_consumption_to_spritmonitor_def Let_def
        cong: option.case_cong sum.case_cong if_cong)

lemma loop_ignores_month_hydration:
  "upload_loop (e\<lparr>update_month_trip_info := f\<rparr>) c cur days = upload_loop e c cur days"
  by (induction days arbitrary: c cur)
     (simp_all add: upload_loop_Cons send_ignores_month_hydration
        cong: sum.case_cong)

text \<open>
  C1, amended: when all days before \<open>d\<close> went through and the day hydration of \<open>d\<close> fails
  or its upload raises, the pass ends at \<open>d\<close>: the result is the one of the pass without
  the later days, \<open>Abandoned\<close> (the function returns) for the hydration and \<open>Raised\<close> (the
  exception leaves the loop) for the upload, and no later day is hydrated. Only the outcome
  of the month hydration has no effect on the loop.
\<close>

theorem failure_ends_pass:
  assumes "fst (upload_loop e c cur pre) = Completed"
    and "update_day_trip_info e (date d) = Inl ex
         \<or> (\<exists>info. update_day_trip_info e (date d) = Inr info
              \<and> fst (send_consumption_to_spritmonitor e
                       (c\<lparr>vehicle := (vehicle c)\<lparr>day_trip_info := info\<rparr>\<rparr>) d) = Inl ex)"
  shows "upload_loop e c cur (pre @ d # rest) = upload_loop e c cur (pre @ [d])
       \<and> fst (upload_loop e c cur (pre @ d # rest))
           = (if isl (update_day_trip_info e (date d)) then Abandoned ex else Raised ex)
       \<and> day_calls (snd (upload_loop e c cur (pre @ d # rest))) = map date pre @ [date d]
       \<and> upload_loop (e\<lparr>update_month_trip_info := f\<rparr>) c cur days = upload_loop e c cur days"
  using failing_day_after_prefix [OF assms] loop_ignores_month_hydration by blast

text \<open>
  C7, as stated: k months, k calls. The selected days span January and February; the day
  hydration of 30 January fails, the pass ends there, and February is never hydrated.
\<close>

theorem month_hydration_calls_counterexample:
  "map strftime_Ym (map date (backfill (latest_date_of (example_env (Inr []) [(2024, 1, 30)] [] True))
        example_today (vehicle (fresh_client (vehicle_at False 60 80 100 0)))))
     = [(2024, 1), (2024, 1), (2024, 2)]
   \<and> month_calls (snd (process_and_upload_daily_stats
        (example_env (Inr []) [(2024, 1, 30)] [] True)
        (fresh_client (vehicle_at False 60 80 100 0)) example_today))
     = [(2024, 1)]"
  by code_simp

text \<open>A pass that runs to its end over the same days: two months, two calls.\<close>

theorem month_hydration_calls_witness:
  "fst (process_and_upload_daily_stats (example_env (Inr []) [] [] True)
         (fresh_client (vehicle_at False 60 80 100 0)) example_today) = Completed
   \<and> day_calls (snd (process_and_upload_daily_stats (example_env (Inr []) [] [] True)
         (fresh_client (vehicle_at False 60 80 100 0)) example_today))
       = [(2024, 1, 30), (2024, 1, 31), (2024, 2, 1)]
   \<and> month_calls (snd (process_and_upload_daily_stats (example_env (Inr []) [] [] True)
         (fresh_client (vehicle_at False 60 80 100 0)) example_today))
       = [(2024, 1), (2024, 2)]"
proof -
  let ?r = "process_and_upload_daily_stats (example_env (Inr []) [] [] True)
         (fresh_client (vehicle_at False 60 80 100 0)) example_today"
  have o: "fst ?r = Completed" by code_simp
  have d: "day_calls (snd ?r) = [(2024, 1, 30), (2024, 1, 31), (2024, 2, 1)]" by code_simp
  have "?r = (fst ?r, snd ?r)" by simp
  from month_hydration_calls [OF this]
  have "month_calls (snd ?r) = remdups_adj (map strftime_Ym (day_calls (snd ?r)))" by blast
  then have "month_calls (snd ?r) = [(2024, 1), (2024, 2)]"
    by (simp add: d strftime_Ym_def)
  with o d show ?thesis by blast
qed

text \<open>
  C1, as stated: after a failure the remaining days are processed. With three days
  selected, a failing day hydration on 30 January leaves the trace at two calls; a failing
  upload on 30 January raises, and 31 January and 1 February are never hydrated.
\<close>

theorem failure_ends_pass_counterexample:
  "map date (backfill (latest_date_of (example_env (Inr []) [(2024, 1, 30)] [] True))
        example_today (vehicle (fresh_client (vehicle_at False 60 80 100 0))))
     = [(2024, 1, 30), (2024, 1, 31), (2024, 2, 1)]
   \<and> process_and_upload_daily_stats (example_env (Inr []) [(2024, 1, 30)] [] True)
        (fresh_client (vehicle_at False 60 80 100 0)) example_today
     = (Abandoned ApiError, [MonthHydration (2024, 1), DayHydration (2024, 1, 30)])
   \<and> fst (process_and_upload_daily_stats (example_env (Inr []) [] [] False)
        (fresh_client (vehicle_at False 60 80 100 0)) example_today)
     = Raised UploadError
   \<and> day_calls (snd (process_and_upload_daily_stats (example_env (Inr []) [] [] False)
        (fresh_client (vehicle_at False 60 80 100 0)) example_today))
     = [(2024, 1, 30)]"
  by code_simp

text \<open>30 January goes through, the hydration of 31 January fails, 1 February is not reached.\<close>

theorem failure_ends_pass_witness:
  "fst (upload_loop (example_env (Inr []) [(2024, 1, 31)] [] True)
         (fresh_client (vehicle_at False 60 80 100 0)) None
         [stat_on (2024, 1, 30) 10 2000]) = Completed
   \<and> update_day_trip_info (example_env (Inr []) [(2024, 1, 31)] [] True) (2024, 1, 31)
       = Inl ApiError
   \<and> fst (upload_loop (example_env (Inr []) [(2024, 1, 31)] [] True)
         (fresh_client (vehicle_at False 60 80 100 0)) None
         [stat_on (2024, 1, 30) 10 2000, stat_on (2024, 1, 31) 20 4000,
          stat_on (2024, 2, 1) 5 1000]) = Abandoned ApiError
   \<and> day_calls (snd (upload_loop (example_env (Inr []) [(2024, 1, 31)] [] True)
         (fresh_client (vehicle_at False 60 80 100 0)) None
         [stat_on (2024, 1, 30) 10 2000, stat_on (2024, 1, 31) 20 4000,
          stat_on (2024, 2, 1) 5 1000])) = [(2024, 1, 30), (2024, 1, 31)]"
proof -
  let ?e = "example_env (Inr []) [(2024, 1, 31)] [] True"
  let ?c = "fresh_client (vehicle_at False 60 80 100 0)"
  let ?d = "stat_on (2024, 1, 31) 20 4000"
  have h1: "fst (upload_loop ?e ?c None [stat_on (2024, 1, 30) 10 2000]) = Completed"
    by code_simp
  have u: "update_day_trip_info ?e (2024, 1, 31) = Inl ApiError"
    by (simp add: example_env_def)
  then have h2: "update_day_trip_info ?e (date ?d) = Inl ApiError
         \<or> (\<exists>info. update_day_trip_info ?e (date ?d) = Inr info
              \<and> fst (send_consumption_to_spritmonitor ?e
                       (?c\<lparr>vehicle := (vehicle ?c)\<lparr>day_trip_info := info\<rparr>\<rparr>) ?d) = Inl ApiError)"
    by (simp add: stat_on_def)
  note t = failure_ends_pass [OF h1 h2, of "[stat_on (2024, 2, 1) 5 1000]"]
  have i: "isl (update_day_trip_info ?e (date ?d))" using u by (simp add: stat_on_def)
  from t [THEN conjunct2, THEN conjunct1] i have "fst (upload_loop ?e ?c None
         ([stat_on (2024, 1, 30) 10 2000] @ ?d # [stat_on (2024, 2, 1) 5 1000]))
       = Abandoned ApiError" by simp
  moreover from t [THEN conjunct2, THEN conjunct2, THEN conjunct1]
  have "day_calls (snd (upload_loop ?e ?c None
         ([stat_on (2024, 1, 30) 10 2000] @ ?d # [stat_on (2024, 2, 1) 5 1000])))
       = map date [stat_on (2024, 1, 30) 10 2000] @ [date ?d]" .
  ultimately show ?thesis using h1 u by (simp add: stat_on_def)
qed

lemma request_charging_power:
  "map_of (query_items (request_data data)) ''charging_power''
     = (if 0 < charging_power data then Some (PFloat (charging_power data)) else None)"
proof (cases "0 < charging_power data")
  case True
  let ?pre = "[(''date'', PStr (cd_date data)),
      (''odometer'', PInt (cd_odometer data)),
      (''trip'', PFloat (trip data)),
      (''quantity'', PFloat (quantity data)),
      (''type'', PStr (fueling_type data)),
      (''price'', PFloat (price data)),
      (''currencyid'', PInt (currencyid data)),
      (''pricetype'', PInt (pricetype data)),
      (''fuelsortid'', PStr ''19''),
      (''quantityunitid'', PInt (quantityunitid data)),
      (''charge_info'', PStr (charge_info data @ '',source_vehicle'')),
      (''percent'', PInt (percent data)),
      (''bc_consumption'', PFloat (bc_consumption data)),
      (''bc_quantity'', PFloat (bc_quantity data)),
      (''bc_speed'', PFloat (bc_speed data)),
      (''note'', PNote (cd_note data)),
      (''location'', PStr []),
      (''position'', PStr [])]"
  let ?v = "PFloat (charging_power data)"
  have "\<exists>post. request_data data = ?pre @ (''charging_power'', ?v) # post"
    using True by (simp add: request_data_def)
  then obtain post where p: "request_data data = ?pre @ (''charging_power'', ?v) # post"
    by blast
  have k: "''charging_power'' \<notin> fst ` set ?pre" by simp
  have "map_of (query_items (request_data data)) ''charging_power'' = Some ?v"
    unfolding query_items_def p by (rule map_of_filter_hit[OF k]) simp
  with True show ?thesis by simp
next
  case False
  then have "''charging_power'' \<notin> fst ` set (request_data data)"
    by (auto simp: request_data_def)
  then have "map_of (query_items (request_data data)) ''charging_power'' = None"
    unfolding query_items_def by (rule map_of_filter_miss)
  with False show ?thesis by simp
qed

lemma send_upload:
  assumes "Upload vid tank q \<in> set (snd (send_consumption_to_spritmonitor e c d))"
  shows "\<exists>r. build_consumption_data c d = Inr r \<and> q = query_items (request_data r)"
  using assms
  by (auto simp: send_consumption_to_spritmonitor_def Let_def
        split: option.splits sum.splits if_splits)

lemma loop_upload:
  assumes "Upload vid tank q \<in> set (snd (upload_loop e c cur days))"
  shows "\<exists>d info r. d \<in> set days \<and> update_day_trip_info e (date d) = Inr info
           \<and> build_consumption_data (c\<lparr>vehicle := (vehicle c)\<lparr>day_trip_info := info\<rparr>\<rparr>) d
               = Inr r
           \<and> q = query_items (request_data r)"
  using assms
proof (induction days arbitrary: c cur)
  case Nil
  then show ?case by simp
next
  case (Cons x xs)
  show ?case
  proof (cases "update_day_trip_info e (date x)")
    case (Inl ex)
    with Cons.prems show ?thesis by (auto simp: upload_loop_Cons split: if_splits)
  next
    case (Inr info)
    let ?c = "c\<lparr>vehicle := (vehicle c)\<lparr>day_trip_info := info\<rparr>\<rparr>"
    have here: ?thesis
      if "Upload vid tank q \<in> set (snd (send_consumption_to_spritmonitor e ?c x))"
    proof -
      from send_upload [OF that] obtain r where
        "build_consumption_data ?c x = Inr r" "q = query_items (request_data r)"
        by blast
      with Inr have "x \<in> set (x # xs) \<and> update_day_trip_info e (date x) = Inr info
           \<and> build_consumption_data ?c x = Inr r \<and> q = query_items (request_data r)"
        by simp
      then show ?thesis by blast
    qed
    show ?thesis
    proof (cases "fst (send_consumption_to_spritmonitor e ?c x)")
      case (Inl ex)
      with Inr Cons.prems
      have "Upload vid tank q \<in> set (snd (send_consumption_to_spritmonitor e ?c x))"
        by (auto simp: upload_loop_Cons split: if_splits)
      then show ?thesis by (rule here)
    next
      case (Inr u)
      with \<open>update_day_trip_info e (date x) = Inr info\<close> Cons.prems
      consider "Upload vid tank q \<in> set (snd (send_consumption_to_spritmonitor e ?c x))"
        | "Upload vid tank q \<in> set (snd (upload_loop e ?c (Some (strftime_Ym (date x))) xs))"
        by (auto simp: upload_loop_Cons split: if_splits)
      then show ?thesis
      proof cases
        case 1
        then show ?thesis by (rule here)
      next
        case 2
        from Cons.IH [OF this] obtain d info' r where
          "d \<in> set xs" "update_day_trip_info e (date d) = Inr info'"
          "build_consumption_data (?c\<lparr>vehicle := (vehicle ?c)\<lparr>day_trip_info := info'\<rparr>\<rparr>) d
             = Inr r"
          "q = query_items (request_data r)"
          by blast
        then have "d \<in> set (x # xs) \<and> update_day_trip_info e (date d) = Inr info'
           \<and> build_consumption_data (c\<lparr>vehicle := (vehicle c)\<lparr>day_trip_info := info'\<rparr>\<rparr>) d
               = Inr r
           \<and> q = query_items (request_data r)"
          by simp
        then show ?thesis by blast
      qed
    qed
  qed
qed

lemma backfill_before_today: "d \<in> set (backfill cp today v) \<Longrightarrow> date d < today"
  by (auto simp: backfill_def Let_def filtered_stats_def split: if_splits)

text \<open>
  C5, as stated: historical days carry \<open>charging_power\<close> 0. After an estimator run on the
  DC branch (50 percent, limits 80 and 80, 60 minutes: 21 kW stored), the pass uploads the
  three days before today, each with \<open>charging_power\<close> 21.
\<close>

theorem record_charging_fields_counterexample:
  "uploaded_values ''charging_power''
     (snd (process_and_upload_daily_stats (example_env (Inr []) [] [] True)
        (snd (get_estimated_charging_power (fresh_client (vehicle_at True 50 80 80 60))))
        example_today))
     = [PFloat 21, PFloat 21, PFloat 21]
   \<and> day_calls
     (snd (process_and_upload_daily_stats (example_env (Inr []) [] [] True)
        (snd (get_estimated_charging_power (fresh_client (vehicle_at True 50 80 80 60))))
        example_today))
     = [(2024, 1, 30), (2024, 1, 31), (2024, 2, 1)]"
  by code_simp


text \<open>
  C5, amended: in every pass, a record is built only after the day hydration of its day,
  and only for days of the backfill set, all dated before today: no record is built for the
  current day. Every record built carries \<open>charging_duration\<close> 0, and no \<open>charging_duration\<close>
  is transmitted; every record built carries as \<open>charging_power\<close> the value that the
  attribute \<open>charging_power_in_kilowatts\<close> of the client has during the pass, the same for
  every day, and it is transmitted exactly when it is positive.
\<close>

theorem record_charging_fields:
  assumes "process_and_upload_daily_stats e c today = (out, evs)"
  shows "(\<forall>vid tank q. Upload vid tank q \<in> set evs \<longrightarrow>
            (\<exists>d info r. d \<in> set (backfill (latest_date_of e) today (vehicle c))
               \<and> date d < today
               \<and> update_day_trip_info e (date d) = Inr info
               \<and> build_consumption_data
                    (c\<lparr>vehicle := (vehicle c)\<lparr>day_trip_info := info\<rparr>\<rparr>) d = Inr r
               \<and> q = query_items (request_data r)
               \<and> charging_duration r = 0
               \<and> charging_power r = charging_power_in_kilowatts c
               \<and> map_of q ''charging_duration'' = None
               \<and> map_of q ''charging_power''
                   = (if 0 < charging_power_in_kilowatts c
                      then Some (PFloat (charging_power_in_kilowatts c)) else None)))
       \<and> (\<forall>t\<in>set (day_calls evs). t < today)"
proof -
  let ?days = "backfill (latest_date_of e) today (vehicle c)"
  have evs: "evs = snd (upload_loop e c None ?days)"
    using assms by (simp add: process_and_upload_daily_stats_def)
  have up: "\<forall>vid tank q. Upload vid tank q \<in> set evs \<longrightarrow>
            (\<exists>d info r. d \<in> set ?days
               \<and> date d < today
               \<and> update_day_trip_info e (date d) = Inr info
               \<and> build_consumption_data
                    (c\<lparr>vehicle := (vehicle c)\<lparr>day_trip_info := info\<rparr>\<rparr>) d = Inr r
               \<and> q = query_items (request_data r)
               \<and> charging_duration r = 0
               \<and> charging_power r = charging_power_in_kilowatts c
               \<and> map_of q ''charging_duration'' = None
               \<and> map_of q ''charging_power''
                   = (if 0 < charging_power_in_kilowatts c
                      then Some (PFloat (charging_power_in_kilowatts c)) else None))"
  proof (intro allI impI)
    fix vid tank q
    assume "Upload vid tank q \<in> set evs"
    then have "Upload vid tank q \<in> set (snd (upload_loop e c None ?days))" by (simp add: evs)
    from loop_upload [OF this] obtain d info r where
      d: "d \<in> set ?days" and i: "update_day_trip_info e (date d) = Inr info"
      and r: "build_consumption_data (c\<lparr>vehicle := (vehicle c)\<lparr>day_trip_info := info\<rparr>\<rparr>) d
                = Inr r"
      and q: "q = query_items (request_data r)"
      by blast
    let ?c = "c\<lparr>vehicle := (vehicle c)\<lparr>day_trip_info := info\<rparr>\<rparr>"
    have f: "charging_duration r = 0" "charging_power r = charging_power_in_kilowatts c"
      using build_consumption_data_total [of ?c d] r by auto
    have t: "date d < today" using d by (rule backfill_before_today)
    have n: "map_of q ''charging_duration'' = None"
      unfolding q using f(1) by (rule request_no_duration)
    have p: "map_of q ''charging_power''
        = (if 0 < charging_power_in_kilowatts c
           then Some (PFloat (charging_power_in_kilowatts c)) else None)"
      unfolding q by (simp add: request_charging_power f(2))
    from d t i r q f n p
    show "\<exists>d info r. d \<in> set ?days
               \<and> date d < today
               \<and> update_day_trip_info e (date d) = Inr info
               \<and> build_consumption_data
                    (c\<lparr>vehicle := (vehicle c)\<lparr>day_trip_info := info\<rparr>\<rparr>) d = Inr r
               \<and> q = query_items (request_data r)
               \<and> charging_duration r = 0
               \<and> charging_power r = charging_power_in_kilowatts c
               \<and> map_of q ''charging_duration'' = None
               \<and> map_of q ''charging_power''
                   = (if 0 < charging_power_in_kilowatts c
                      then Some (PFloat (charging_power_in_kilowatts c)) else None)"
      by blast
  qed
  obtain n where n: "day_calls evs = take n (map date ?days)"
    using day_calls_prefix [of e c None ?days] evs by blast
  have dc: "\<forall>t\<in>set (day_calls evs). t < today"
  proof
    fix t assume "t \<in> set (day_calls evs)"
    then have "t \<in> set (map date ?days)" unfolding n by (rule in_set_takeD)
    then obtain d where "d \<in> set ?days" "t = date d" by auto
    then show "t < today" using backfill_before_today by blast
  qed
  from up dc show ?thesis by blast
qed

text \<open>
  The pass of the counterexample: the record of 31 January (odometer 988) is sent with
  \<open>charging_power\<close> 21, the value stored by the estimator run before the pass, and without
  \<open>charging_duration\<close>.
\<close>

theorem record_charging_fields_witness:
  "Upload ''123'' ''1''
     (query_items (request_data (projr (build_consumption_data
        (snd (get_estimated_charging_power (fresh_client (vehicle_at True 50 80 80 60))))
        ((stat_on (2024, 1, 31) 20 4000)\<lparr>odometer := 988\<rparr>)))))
     \<in> set (snd (process_and_upload_daily_stats (example_env (Inr []) [] [] True)
          (snd (get_estimated_charging_power (fresh_client (vehicle_at True 50 80 80 60))))
          example_today))
   \<and> charging_power_in_kilowatts
        (snd (get_estimated_charging_power (fresh_client (vehicle_at True 50 80 80 60)))) = 21
   \<and> map_of (query_items (request_data (projr (build_consumption_data
        (snd (get_estimated_charging_power (fresh_client (vehicle_at True 50 80 80 60))))
        ((stat_on (2024, 1, 31) 20 4000)\<lparr>odometer := 988\<rparr>)))))
        ''charging_power'' = Some (PFloat 21)
   \<and> map_of (query_items (request_data (projr (build_consumption_data
        (snd (get_estimated_charging_power (fresh_client (vehicle_at True 50 80 80 60))))
        ((stat_on (2024, 1, 31) 20 4000)\<lparr>odometer := 988\<rparr>)))))
        ''charging_duration'' = None"
proof -
  let ?c = "snd (get_estimated_charging_power (fresh_client (vehicle_at True 50 80 80 60)))"
  let ?e = "example_env (Inr []) [] [] True"
  let ?r = "process_and_upload_daily_stats ?e ?c example_today"
  let ?q = "query_items (request_data (projr (build_consumption_data ?c
              ((stat_on (2024, 1, 31) 20 4000)\<lparr>odometer := 988\<rparr>))))"
  have m: "Upload ''123'' ''1'' ?q \<in> set (snd ?r)" by code_simp
  have p: "charging_power_in_kilowatts ?c = 21" by code_simp
  have "?r = (fst ?r, snd ?r)" by simp
  note t = record_charging_fields [OF this, THEN conjunct1, rule_format, OF m]
  from t have "map_of ?q ''charging_duration'' = None
    \<and> map_of ?q ''charging_power''
       = (if 0 < charging_power_in_kilowatts ?c
          then Some (PFloat (charging_power_in_kilowatts ?c)) else None)"
    by (elim exE conjE, intro conjI) assumption+
  with m p show ?thesis by simp
qed
end
